theory Spec2Isabelle
  imports Main "HOL-Library.AList"
begin

section \<open>GraphLibrary (source/graph.js): the data model\<close>

text \<open>
  The class \<^verbatim>\<open>GraphLibrary\<close> is a facade over grapher.js. Its methods mutate the fields
  of the instance, write to the console and to the document, and call into grapher.js.
  Each method is modelled as a function from the state before the call to the outcome
  of the call (returned normally, or threw) and the state after it.
\<close>

subsection \<open>Thrown values, outcomes, console\<close>

datatype exn = Error string | TypeError string

datatype outcome = Returned | Threw exn

text \<open>\<^verbatim>\<open>console.warn(msg)\<close> and \<^verbatim>\<open>console.error(msg, error)\<close>.\<close>

datatype log_entry = Warn string | LogError string exn

subsection \<open>Option objects\<close>

text \<open>
  The option objects passed to \<^verbatim>\<open>addNode\<close>, \<^verbatim>\<open>addEdge\<close> and \<^verbatim>\<open>addCluster\<close>, with the
  property types of their JSDoc. \<open>None\<close> is a property that is absent from the object.
  The styling properties (\<^verbatim>\<open>style\<close>, \<^verbatim>\<open>arguments\<close>) only decorate the grapher objects
  created by \<^verbatim>\<open>render\<close> and are left out.
\<close>

record node_opts =
  no_id :: "string option"
  no_label :: "string option"
  no_parent :: "string option"
  no_styleClass :: "string option"

record edge_opts =
  eo_from :: "string option"
  eo_to :: "string option"
  eo_id :: "string option"
  eo_label :: "string option"
  eo_styleClass :: "string option"
  eo_minlen :: "int option"
  eo_weight :: "int option"

text \<open>
  JavaScript truthiness at the types above: a string property is truthy when it is
  present and not the empty string, a number when it is present and not zero.
\<close>

definition truthy :: "string option \<Rightarrow> bool" where
  "truthy v = (case v of None \<Rightarrow> False | Some s \<Rightarrow> s \<noteq> [])"

text \<open>\<^verbatim>\<open>v || d\<close> for a string property \<open>v\<close> and for a number property \<open>v\<close>.\<close>

definition or_else :: "string option \<Rightarrow> string \<Rightarrow> string" where
  "or_else v d = (case v of None \<Rightarrow> d | Some s \<Rightarrow> if s = [] then d else s)"

definition or_num :: "int option \<Rightarrow> int \<Rightarrow> int" where
  "or_num v d = (case v of None \<Rightarrow> d | Some n \<Rightarrow> if n = 0 then d else n)"

text \<open>
  What the collections store. \<^verbatim>\<open>addNode\<close> and \<^verbatim>\<open>addCluster\<close> store
  \<^verbatim>\<open>{ label: opts.id, ...opts }\<close> and only when \<^verbatim>\<open>opts.id\<close> is truthy, so a stored entry
  always has an id and a label; \<^verbatim>\<open>addEdge\<close> stores \<^verbatim>\<open>{ ...edgeOpts }\<close> and only when
  \<^verbatim>\<open>from\<close> and \<^verbatim>\<open>to\<close> are truthy.
\<close>

record entry =
  en_id :: string
  en_label :: string
  en_parent :: "string option"
  en_styleClass :: "string option"

record edge_entry =
  ee_from :: string
  ee_to :: string
  ee_id :: "string option"
  ee_label :: "string option"
  ee_styleClass :: "string option"
  ee_minlen :: "int option"
  ee_weight :: "int option"

definition spread_entry :: "string \<Rightarrow> node_opts \<Rightarrow> entry" where
  "spread_entry i opts =
     \<lparr>en_id = i,
      en_label = (case no_label opts of None \<Rightarrow> i | Some l \<Rightarrow> l),
      en_parent = no_parent opts,
      en_styleClass = no_styleClass opts\<rparr>"

definition spread_edge :: "string \<Rightarrow> string \<Rightarrow> edge_opts \<Rightarrow> edge_entry" where
  "spread_edge f t opts =
     \<lparr>ee_from = f, ee_to = t, ee_id = eo_id opts, ee_label = eo_label opts,
      ee_styleClass = eo_styleClass opts, ee_minlen = eo_minlen opts,
      ee_weight = eo_weight opts\<rparr>"

subsection \<open>JavaScript Map\<close>

text \<open>
  A \<^verbatim>\<open>Map\<close> iterates in insertion order: an association list. \<^verbatim>\<open>set\<close> replaces the value
  of a key that is present, in place, and appends a new key at the end, which is
  \<^const>\<open>AList.update\<close>.
\<close>

type_synonym 'v js_map = "(string \<times> 'v) list"

definition map_has :: "string \<Rightarrow> 'v js_map \<Rightarrow> bool" where
  "map_has k m = (map_of m k \<noteq> None)"

definition map_get :: "string \<Rightarrow> 'v js_map \<Rightarrow> 'v option" where
  "map_get k m = map_of m k"

definition map_set :: "string \<Rightarrow> 'v \<Rightarrow> 'v js_map \<Rightarrow> 'v js_map" where
  "map_set k v m = AList.update k v m"

subsection \<open>grapher.js objects\<close>

text \<open>
  The \<^verbatim>\<open>grapher.Node\<close> and \<^verbatim>\<open>grapher.Edge\<close> objects that \<^verbatim>\<open>render\<close> creates, with the
  properties it assigns.
\<close>

record gnode =
  gn_name :: string
  gn_id :: string
  gn_class :: string
  gn_isCluster :: bool
  gn_labelText :: string

record gedge =
  ge_v :: string
  ge_w :: string
  ge_id :: "string option"
  ge_class :: string
  ge_label :: string
  ge_minlen :: int
  ge_weight :: int

record goptions =
  go_direction :: string
  go_nodesep :: int
  go_ranksep :: int

text \<open>
  Modelled from the spec: \<^verbatim>\<open>grapher.Graph\<close>. grapher.js is not among the sources; its
  API documentation says that \<^verbatim>\<open>setNode\<close> adds or updates the node stored under its name,
  that \<^verbatim>\<open>node(key)\<close> returns that entry or \<^verbatim>\<open>undefined\<close>, that \<^verbatim>\<open>setParent\<close> records the
  parent of a node, and that \<^verbatim>\<open>setEdge\<close> adds an edge. \<^verbatim>\<open>options\<close> and \<^verbatim>\<open>identifier\<close> are
  plain properties that \<^verbatim>\<open>render\<close> assigns.
\<close>

record ggraph =
  gg_compound :: bool
  gg_nodes :: "gnode js_map"
  gg_parent :: "string js_map"
  gg_edges :: "gedge list"
  gg_options :: "goptions option"
  gg_identifier :: "string option"

definition new_Graph :: "bool \<Rightarrow> ggraph" where
  "new_Graph c =
     \<lparr>gg_compound = c, gg_nodes = [], gg_parent = [], gg_edges = [],
      gg_options = None, gg_identifier = None\<rparr>"

subsection \<open>The instance and the environment it writes to\<close>

record options =
  direction :: string
  nodeSep :: int
  rankSep :: int
  compound :: bool

text \<open>
  Calls that leave graph.js (methods of the grapher instance), and the three private
  methods that only write to the built SVG elements. They are recorded, in order, in
  \<open>calls\<close>.
\<close>

datatype call =
    SetNode gnode
  | SetParent string string
  | SetEdge gedge
  | Build nat
  | Measure
  | Layout
  | ApplyCustomStyles
  | Update
  | FitSvgToContent nat
  | AttachEventListeners

text \<open>The payloads that the source passes to \<^verbatim>\<open>_emit\<close>.\<close>

datatype event_data =
    NodeClick string
  | ArgumentClick string string
  | EdgeClick string string

text \<open>
  The second argument of \<^verbatim>\<open>on\<close>: a function (with an identity, and whether it throws
  on a given payload) or a value that is not a function. A listener is taken not to
  call back into the instance.
\<close>

datatype listener = Function nat "event_data \<Rightarrow> exn option" | NotFunction

text \<open>
  The fields of the instance (\<^verbatim>\<open>_nodes\<close>, \<^verbatim>\<open>_edges\<close>, \<^verbatim>\<open>_clusters\<close> and
  \<^verbatim>\<open>_eventListeners\<close> without the underscore), the children of the container element,
  the console, the handle that \<^verbatim>\<open>document.createElementNS\<close> gives to the next element it
  creates, and two histories: the calls made into grapher.js and the listener
  invocations.
\<close>

record world =
  container :: "nat list"
  options :: options
  nodes :: "entry js_map"
  edges :: "edge_entry list"
  clusters :: "entry js_map"
  eventListeners :: "listener list js_map"
  grapherInstance :: "ggraph option"
  console :: "log_entry list"
  document_next :: nat
  calls :: "call list"
  invoked :: "(nat \<times> event_data) list"

section \<open>Building the graph\<close>

text \<open>\<^verbatim>\<open>addNode(nodeOpts)\<close>; \<open>None\<close> is a call without an options object.\<close>

definition addNode :: "node_opts option \<Rightarrow> world \<Rightarrow> outcome \<times> world" where
  "addNode nodeOpts s =
     (case nodeOpts of
        None \<Rightarrow> (Threw (Error ''Node options with an `id` must be provided.''), s)
      | Some opts \<Rightarrow>
          if \<not> truthy (no_id opts)
          then (Threw (Error ''Node options with an `id` must be provided.''), s)
          else
            let i = or_else (no_id opts) [] in
            if map_has i (nodes s) \<or> map_has i (clusters s)
            then (Returned, s\<lparr>console := console s @
                    [Warn (''Node or cluster with ID '' @ [CHR 0x27] @ i @ [CHR 0x27] @
                           '' already exists. Overwriting is not supported.'')]\<rparr>)
            else (Returned, s\<lparr>nodes := map_set i (spread_entry i opts) (nodes s)\<rparr>))"

text \<open>\<^verbatim>\<open>addEdge(edgeOpts)\<close>.\<close>

definition addEdge :: "edge_opts option \<Rightarrow> world \<Rightarrow> outcome \<times> world" where
  "addEdge edgeOpts s =
     (case edgeOpts of
        None \<Rightarrow> (Threw (Error ''Edge options with `from` and `to` IDs must be provided.''), s)
      | Some opts \<Rightarrow>
          if \<not> truthy (eo_from opts) \<or> \<not> truthy (eo_to opts)
          then (Threw (Error ''Edge options with `from` and `to` IDs must be provided.''), s)
          else (Returned,
                s\<lparr>edges := edges s @
                   [spread_edge (or_else (eo_from opts) []) (or_else (eo_to opts) []) opts]\<rparr>))"

text \<open>\<^verbatim>\<open>addCluster(clusterOpts)\<close>; the options of a cluster have the properties of a node's.\<close>

definition addCluster :: "node_opts option \<Rightarrow> world \<Rightarrow> outcome \<times> world" where
  "addCluster clusterOpts s =
     (if \<not> compound (options s)
      then (Returned, s\<lparr>console := console s @
              [Warn ''Cannot add cluster: graph is not configured as compound. Set `options.compound` to true.'']\<rparr>)
      else
        case clusterOpts of
          None \<Rightarrow> (Threw (Error ''Cluster options with an `id` must be provided.''), s)
        | Some opts \<Rightarrow>
            if \<not> truthy (no_id opts)
            then (Threw (Error ''Cluster options with an `id` must be provided.''), s)
            else
              let i = or_else (no_id opts) [] in
              if map_has i (nodes s) \<or> map_has i (clusters s)
              then (Returned, s\<lparr>console := console s @
                      [Warn (''Node or cluster with ID '' @ [CHR 0x27] @ i @ [CHR 0x27] @
                             '' already exists. Overwriting is not supported.'')]\<rparr>)
              else (Returned, s\<lparr>clusters := map_set i (spread_entry i opts) (clusters s)\<rparr>))"

section \<open>The constructor\<close>

text \<open>
  \<^verbatim>\<open>new GraphLibrary(container, options)\<close>. The first argument says whether the container
  is an \<^verbatim>\<open>HTMLElement\<close>, and gives its children; the second is the caller's partial options
  object, spread over the defaults. The console, the document and the histories are
  those of the environment \<open>w\<close> in which the instance is created. The constructor also
  sets the CSS position of a statically positioned container, which is not part of the
  state modelled here.
\<close>

record partial_options =
  po_direction :: "string option"
  po_nodeSep :: "int option"
  po_rankSep :: "int option"
  po_compound :: "bool option"

definition default_options :: "partial_options \<Rightarrow> options" where
  "default_options po =
     \<lparr>direction = (case po_direction po of None \<Rightarrow> ''TB'' | Some d \<Rightarrow> d),
      nodeSep = (case po_nodeSep po of None \<Rightarrow> 50 | Some n \<Rightarrow> n),
      rankSep = (case po_rankSep po of None \<Rightarrow> 50 | Some n \<Rightarrow> n),
      compound = (case po_compound po of None \<Rightarrow> True | Some c \<Rightarrow> c)\<rparr>"

definition constructor :: "nat list option \<Rightarrow> partial_options \<Rightarrow> world \<Rightarrow> exn + world" where
  "constructor cont po w =
     (case cont of
        None \<Rightarrow> Inl (Error ''A valid HTML container element must be provided.'')
      | Some children \<Rightarrow>
          Inr (w\<lparr>container := children, options := default_options po, nodes := [],
                 edges := [], clusters := [], eventListeners := [],
                 grapherInstance := None\<rparr>))"

section \<open>Rendering\<close>

text \<open>
  What grapher.js does when it is called is not in graph.js. An environment says, for
  each call, whether it throws, and how the promise of \<^verbatim>\<open>layout()\<close> settles: resolved
  with a string, or rejected.
\<close>

datatype layout_result = Resolves string | Rejects exn

record env =
  raises :: "call \<Rightarrow> exn option"
  layout_result :: layout_result

text \<open>
  Modelled from the spec: the effect of \<^verbatim>\<open>setNode\<close>, \<^verbatim>\<open>setParent\<close> and \<^verbatim>\<open>setEdge\<close> on the
  grapher instance (grapher.js is not among the sources), as its API documentation
  describes them. The other calls write to the SVG elements only.
\<close>

definition apply_call :: "call \<Rightarrow> ggraph \<Rightarrow> ggraph" where
  "apply_call c g =
     (case c of
        SetNode n \<Rightarrow> g\<lparr>gg_nodes := map_set (gn_name n) n (gg_nodes g)\<rparr>
      | SetParent n p \<Rightarrow> g\<lparr>gg_parent := map_set n p (gg_parent g)\<rparr>
      | SetEdge e \<Rightarrow> g\<lparr>gg_edges := gg_edges g @ [e]\<rparr>
      | _ \<Rightarrow> g)"

text \<open>
  A call on \<^verbatim>\<open>this.grapherInstance\<close>. On \<^verbatim>\<open>null\<close> the property access is a TypeError.
\<close>

definition invoke :: "env \<Rightarrow> call \<Rightarrow> world \<Rightarrow> outcome \<times> world" where
  "invoke e c s =
     (case grapherInstance s of
        None \<Rightarrow> (Threw (TypeError ''Cannot read properties of null''), s)
      | Some g \<Rightarrow>
          let s' = s\<lparr>calls := calls s @ [c]\<rparr> in
          (case raises e c of
             Some x \<Rightarrow> (Threw x, s')
           | None \<Rightarrow> (Returned, s'\<lparr>grapherInstance := Some (apply_call c g)\<rparr>)))"

text \<open>Statement sequencing: a throw ends the run.\<close>

definition and_then :: "outcome \<times> world \<Rightarrow> (world \<Rightarrow> outcome \<times> world) \<Rightarrow> outcome \<times> world" where
  "and_then r f = (case fst r of Returned \<Rightarrow> f (snd r) | Threw x \<Rightarrow> r)"

text \<open>\<^verbatim>\<open>xs.forEach(f)\<close>, where a throw in \<open>f\<close> ends the loop.\<close>

fun forEach :: "('a \<Rightarrow> world \<Rightarrow> outcome \<times> world) \<Rightarrow> 'a list \<Rightarrow> world \<Rightarrow> outcome \<times> world" where
  "forEach f [] s = (Returned, s)"
| "forEach f (x # xs) s = and_then (f x s) (forEach f xs)"

text \<open>\<^verbatim>\<open>String.prototype.trim\<close>, on the ASCII white space characters.\<close>

definition is_space :: "char \<Rightarrow> bool" where
  "is_space c = (c \<in> set [CHR 0x20, CHR 0x09, CHR 0x0A, CHR 0x0B, CHR 0x0C, CHR 0x0D])"

definition trim :: "string \<Rightarrow> string" where
  "trim s = rev (dropWhile is_space (rev (dropWhile is_space s)))"

text \<open>
  Steps 1 and 2: the grapher nodes of a cluster and of a regular node. Creating the
  objects (\<^verbatim>\<open>new grapher.Node()\<close>, its header, its argument list) is taken to return
  normally; the calls on the grapher instance are the ones an environment can make
  throw.
\<close>

definition gClusterNode :: "entry \<Rightarrow> gnode" where
  "gClusterNode clusterOpts =
     \<lparr>gn_name = en_id clusterOpts, gn_id = en_id clusterOpts,
      gn_class = trim (''cluster '' @ or_else (en_styleClass clusterOpts) []),
      gn_isCluster = True, gn_labelText = en_label clusterOpts\<rparr>"

definition gNode :: "entry \<Rightarrow> gnode" where
  "gNode nodeOpts =
     \<lparr>gn_name = en_id nodeOpts, gn_id = en_id nodeOpts,
      gn_class = or_else (en_styleClass nodeOpts) [],
      gn_isCluster = False,
      gn_labelText = or_else (Some (en_label nodeOpts)) (en_id nodeOpts)\<rparr>"

text \<open>Step 3: \<^verbatim>\<open>if (opts.parent) setParent(opts.id, opts.parent)\<close>.\<close>

definition set_parent_of :: "env \<Rightarrow> entry \<Rightarrow> world \<Rightarrow> outcome \<times> world" where
  "set_parent_of e opts s =
     (if truthy (en_parent opts)
      then invoke e (SetParent (en_id opts) (or_else (en_parent opts) [])) s
      else (Returned, s))"

text \<open>\<^verbatim>\<open>this.grapherInstance.node(key)\<close>: the grapher node stored under the key, if any.\<close>

definition node_lookup :: "string \<Rightarrow> world \<Rightarrow> gnode option" where
  "node_lookup k s = (case grapherInstance s of None \<Rightarrow> None | Some g \<Rightarrow> map_get k (gg_nodes g))"

text \<open>Step 4: the grapher edge of a stored edge, and the loop body that sets or skips it.\<close>

definition gEdge :: "edge_entry \<Rightarrow> gedge" where
  "gEdge edgeOpts =
     \<lparr>ge_v = ee_from edgeOpts, ge_w = ee_to edgeOpts,
      ge_id = (if truthy (ee_id edgeOpts) then ee_id edgeOpts else None),
      ge_class = or_else (ee_styleClass edgeOpts) [],
      ge_label = or_else (ee_label edgeOpts) [],
      ge_minlen = or_num (ee_minlen edgeOpts) 1,
      ge_weight = or_num (ee_weight edgeOpts) 1\<rparr>"

definition edge_step :: "env \<Rightarrow> edge_entry \<Rightarrow> world \<Rightarrow> outcome \<times> world" where
  "edge_step e edgeOpts s =
     (if node_lookup (ee_from edgeOpts) s = None \<or> node_lookup (ee_to edgeOpts) s = None
      then (Returned, s\<lparr>console := console s @
              [Warn (''Skipping edge from '' @ [CHR 0x27] @ ee_from edgeOpts @ [CHR 0x27] @
                     '' to '' @ [CHR 0x27] @ ee_to edgeOpts @ [CHR 0x27] @
                     '': one or both nodes not found.'')]\<rparr>)
      else invoke e (SetEdge (gEdge edgeOpts)) s)"

text \<open>Step 5: the direction handed to grapher.js, and the options object.\<close>

definition grapherLayoutDirection :: "string \<Rightarrow> string" where
  "grapherLayoutDirection d = (if d = ''TB'' \<or> d = ''BT'' then ''vertical'' else d)"

definition grapher_options :: "options \<Rightarrow> goptions" where
  "grapher_options opts =
     \<lparr>go_direction = grapherLayoutDirection (direction opts),
      go_nodesep = nodeSep opts, go_ranksep = rankSep opts\<rparr>"

definition configure :: "world \<Rightarrow> outcome \<times> world" where
  "configure s =
     (case grapherInstance s of
        None \<Rightarrow> (Threw (TypeError ''Cannot set properties of null''), s)
      | Some g \<Rightarrow>
          (Returned, s\<lparr>grapherInstance :=
             Some (g\<lparr>gg_options := Some (grapher_options (options s)),
                     gg_identifier := Some ''graphjs-render''\<rparr>)\<rparr>))"

text \<open>
  Steps 9 to 12, after a layout that resolved with something other than
  \<^verbatim>\<open>'graph-layout-cancelled'\<close>. \<open>svg\<close> is the element created in step 6.
\<close>

definition after_layout :: "env \<Rightarrow> nat \<Rightarrow> world \<Rightarrow> outcome \<times> world" where
  "after_layout e svg s =
     and_then (invoke e ApplyCustomStyles s) (\<lambda>s.
     and_then (invoke e Update s) (\<lambda>s.
     and_then (invoke e (FitSvgToContent svg) s) (\<lambda>s.
     invoke e AttachEventListeners s)))"

text \<open>
  Step 8: \<^verbatim>\<open>await this.grapherInstance.layout()\<close> inside \<^verbatim>\<open>try\<close>/\<^verbatim>\<open>catch\<close>. The call is
  recorded; a rejection is logged and ends the run normally, and so does the
  cancelled outcome.
\<close>

definition layout_step :: "env \<Rightarrow> nat \<Rightarrow> world \<Rightarrow> outcome \<times> world" where
  "layout_step e svg s =
     (let s' = s\<lparr>calls := calls s @ [Layout]\<rparr> in
      case layout_result e of
        Rejects x \<Rightarrow>
          (Returned, s'\<lparr>console := console s' @ [LogError ''Error during graph layout:'' x]\<rparr>)
      | Resolves layoutResult \<Rightarrow>
          if layoutResult = ''graph-layout-cancelled''
          then (Returned, s'\<lparr>console := console s' @ [Warn ''Graph layout was cancelled.'']\<rparr>)
          else after_layout e svg s')"

text \<open>
  Steps 6 and 7: a new SVG element is created and appended to the container, then
  built and measured.
\<close>

definition build_step :: "env \<Rightarrow> world \<Rightarrow> outcome \<times> world" where
  "build_step e s =
     (let svgElement = document_next s;
          s' = s\<lparr>document_next := Suc svgElement, container := container s @ [svgElement]\<rparr>
      in and_then (invoke e (Build svgElement) s') (\<lambda>s.
         and_then (invoke e Measure s) (\<lambda>s.
         layout_step e svgElement s)))"

text \<open>
  \<^verbatim>\<open>async render()\<close>. \<open>Threw\<close> is a rejected promise; \<open>Returned\<close> a promise resolved
  with \<^verbatim>\<open>undefined\<close>.
\<close>

definition render :: "env \<Rightarrow> world \<Rightarrow> outcome \<times> world" where
  "render e s =
     (let s = s\<lparr>container := [],
                grapherInstance := Some (new_Graph (compound (options s)))\<rparr> in
      and_then (forEach (\<lambda>c. invoke e (SetNode (gClusterNode c))) (map snd (clusters s)) s) (\<lambda>s.
      and_then (forEach (\<lambda>n. invoke e (SetNode (gNode n))) (map snd (nodes s)) s) (\<lambda>s.
      and_then (if compound (options s)
                then and_then (forEach (set_parent_of e) (map snd (clusters s)) s)
                       (\<lambda>s. forEach (set_parent_of e) (map snd (nodes s)) s)
                else (Returned, s)) (\<lambda>s.
      and_then (forEach (edge_step e) (edges s) s) (\<lambda>s.
      and_then (configure s) (build_step e))))))"

section \<open>Events\<close>

text \<open>\<^verbatim>\<open>on(eventType, callback)\<close>.\<close>

definition on :: "string \<Rightarrow> listener \<Rightarrow> world \<Rightarrow> outcome \<times> world" where
  "on eventType callback s =
     (case callback of
        NotFunction \<Rightarrow>
          (Returned, s\<lparr>console := console s @
             [Warn (''Callback for event '' @ [CHR 0x27] @ eventType @ [CHR 0x27] @
                    '' is not a function.'')]\<rparr>)
      | Function i f \<Rightarrow>
          let ls = (if \<not> map_has eventType (eventListeners s)
                    then map_set eventType [] (eventListeners s)
                    else eventListeners s)
          in (Returned,
              s\<lparr>eventListeners :=
                  map_set eventType
                    ((case map_get eventType ls of None \<Rightarrow> [] | Some cbs \<Rightarrow> cbs) @ [callback])
                    ls\<rparr>))"

text \<open>
  The body of the \<^verbatim>\<open>forEach\<close> in \<^verbatim>\<open>_emit\<close>: the callback is called inside \<^verbatim>\<open>try\<close>, and
  what it throws is logged.
\<close>

definition call_listener :: "string \<Rightarrow> event_data \<Rightarrow> listener \<Rightarrow> world \<Rightarrow> outcome \<times> world" where
  "call_listener eventType d callback s =
     (case callback of
        NotFunction \<Rightarrow>
          (Returned, s\<lparr>console := console s @
             [LogError (''Error in event listener for '' @ eventType @ '':'')
                       (TypeError ''callback is not a function'')]\<rparr>)
      | Function i f \<Rightarrow>
          let s' = s\<lparr>invoked := invoked s @ [(i, d)]\<rparr> in
          (case f d of
             None \<Rightarrow> (Returned, s')
           | Some x \<Rightarrow>
               (Returned, s'\<lparr>console := console s' @
                  [LogError (''Error in event listener for '' @ eventType @ '':'') x]\<rparr>)))"

text \<open>\<^verbatim>\<open>_emit(eventType, data)\<close>.\<close>

definition emit :: "string \<Rightarrow> event_data \<Rightarrow> world \<Rightarrow> outcome \<times> world" where
  "emit eventType d s =
     (case map_get eventType (eventListeners s) of
        None \<Rightarrow> (Returned, s)
      | Some cbs \<Rightarrow> forEach (call_listener eventType d) cbs s)"

section \<open>Sequences of calls\<close>

datatype op =
    AddNode "node_opts option"
  | AddEdge "edge_opts option"
  | AddCluster "node_opts option"
  | On string listener
  | Emit string event_data
  | Render env

definition step :: "op \<Rightarrow> world \<Rightarrow> outcome \<times> world" where
  "step c s =
     (case c of
        AddNode opts \<Rightarrow> addNode opts s
      | AddEdge opts \<Rightarrow> addEdge opts s
      | AddCluster opts \<Rightarrow> addCluster opts s
      | On t cb \<Rightarrow> on t cb s
      | Emit t d \<Rightarrow> emit t d s
      | Render e \<Rightarrow> render e s)"

text \<open>The state after a sequence of calls, whatever the outcome of each.\<close>

fun run :: "op list \<Rightarrow> world \<Rightarrow> world" where
  "run [] s = s"
| "run (c # cs) s = run cs (snd (step c s))"

section \<open>Observations on a run\<close>

text \<open>The calls that a method added to the history: those of \<open>s'\<close> after those of \<open>s\<close>.\<close>

definition new_calls :: "world \<Rightarrow> world \<Rightarrow> call list" where
  "new_calls s s' = drop (length (calls s)) (calls s')"

text \<open>\<open>precedes a b cs\<close>: \<open>b\<close> occurs in \<open>cs\<close> after the first occurrence of \<open>a\<close>.\<close>

fun precedes :: "call \<Rightarrow> call \<Rightarrow> call list \<Rightarrow> bool" where
  "precedes a b [] = False"
| "precedes a b (c # cs) = (if c = a then b \<in> set cs else precedes a b cs)"

text \<open>The calls of steps 1 to 4, which populate the grapher instance.\<close>

definition is_setup :: "call \<Rightarrow> bool" where
  "is_setup c = (case c of SetNode n \<Rightarrow> True | SetParent n p \<Rightarrow> True | SetEdge e \<Rightarrow> True | _ \<Rightarrow> False)"

text \<open>
  The calls of steps 6 to 12 in the order of the source, and the part of a list of calls
  that is made when a throwing call ends the run (the rejection of \<^verbatim>\<open>layout()\<close> is
  caught, so \<open>Layout\<close> never ends it by throwing).
\<close>

definition pipeline :: "env \<Rightarrow> nat \<Rightarrow> call list" where
  "pipeline e svg =
     [Build svg, Measure, Layout] @
     (case layout_result e of
        Rejects x \<Rightarrow> []
      | Resolves r \<Rightarrow>
          if r = ''graph-layout-cancelled'' then []
          else [ApplyCustomStyles, Update, FitSvgToContent svg, AttachEventListeners])"

fun made :: "env \<Rightarrow> call list \<Rightarrow> call list" where
  "made e [] = []"
| "made e (c # cs) = c # (if c \<noteq> Layout \<and> raises e c \<noteq> None then [] else made e cs)"

fun made_outcome :: "env \<Rightarrow> call list \<Rightarrow> outcome" where
  "made_outcome e [] = Returned"
| "made_outcome e (c # cs) =
     (if c = Layout then made_outcome e cs
      else case raises e c of Some x \<Rightarrow> Threw x | None \<Rightarrow> made_outcome e cs)"

text \<open>The listeners registered for an event type, and the identities of the functions among them.\<close>

definition listeners_of :: "string \<Rightarrow> world \<Rightarrow> listener list" where
  "listeners_of t s = (case map_get t (eventListeners s) of None \<Rightarrow> [] | Some cbs \<Rightarrow> cbs)"

fun function_ids :: "listener list \<Rightarrow> nat list" where
  "function_ids [] = []"
| "function_ids (Function i f # cbs) = i # function_ids cbs"
| "function_ids (NotFunction # cbs) = function_ids cbs"

text \<open>What \<^verbatim>\<open>_emit\<close> logs for the listeners that throw on the payload.\<close>

fun listener_errors :: "string \<Rightarrow> event_data \<Rightarrow> listener list \<Rightarrow> log_entry list" where
  "listener_errors t d [] = []"
| "listener_errors t d (Function i f # cbs) =
     (case f d of
        None \<Rightarrow> listener_errors t d cbs
      | Some x \<Rightarrow> LogError (''Error in event listener for '' @ t @ '':'') x # listener_errors t d cbs)"
| "listener_errors t d (NotFunction # cbs) =
     LogError (''Error in event listener for '' @ t @ '':'') (TypeError ''callback is not a function'')
       # listener_errors t d cbs"

text \<open>The values that \<^verbatim>\<open>on\<close> accepts: \<^verbatim>\<open>typeof callback === 'function'\<close>.\<close>

fun is_function :: "listener \<Rightarrow> bool" where
  "is_function (Function i f) = True"
| "is_function NotFunction = False"

text \<open>A sequence of registrations \<^verbatim>\<open>on(eventType, callback)\<close>.\<close>

fun register :: "(string \<times> listener) list \<Rightarrow> world \<Rightarrow> world" where
  "register [] s = s"
| "register ((t, cb) # regs) s = register regs (snd (on t cb s))"

text \<open>The identifiers in use: those of the stored nodes and clusters.\<close>

definition registered :: "world \<Rightarrow> string set" where
  "registered s = set (map (en_id \<circ> snd) (nodes s)) \<union> set (map (en_id \<circ> snd) (clusters s))"

text \<open>
  What steps 1 to 5 of \<^verbatim>\<open>render\<close> maintain, from the state \<open>s0\<close> at the start of the run:
  the collections are those of \<open>s0\<close>, the container is empty, only set-up calls have
  been made, and the grapher instance holds grapher nodes of stored entries and
  grapher edges of stored edges whose two ends it has as nodes.
\<close>

definition populated :: "world \<Rightarrow> ggraph \<Rightarrow> bool" where
  "populated s0 g =
     ((\<forall>(k, n) \<in> set (gg_nodes g). k = gn_name n \<and>
          (n \<in> gClusterNode ` snd ` set (clusters s0) \<or> n \<in> gNode ` snd ` set (nodes s0))) \<and>
      (\<forall>ge \<in> set (gg_edges g). ge \<in> gEdge ` set (edges s0) \<and>
          map_has (ge_v ge) (gg_nodes g) \<and> map_has (ge_w ge) (gg_nodes g)) \<and>
      (\<forall>go. gg_options g = Some go \<longrightarrow> go = grapher_options (options s0)))"

definition setting_up :: "world \<Rightarrow> world \<Rightarrow> bool" where
  "setting_up s0 s =
     (container s = [] \<and> document_next s = document_next s0 \<and>
      nodes s = nodes s0 \<and> edges s = edges s0 \<and> clusters s = clusters s0 \<and>
      options s = options s0 \<and> eventListeners s = eventListeners s0 \<and>
      invoked s = invoked s0 \<and>
      (\<exists>pre. calls s = calls s0 @ pre \<and> list_all is_setup pre) \<and>
      (\<exists>g. grapherInstance s = Some g \<and> populated s0 g))"

text \<open>
  A graph that is not compound and has no cluster, neither stored nor in its grapher
  instance.
\<close>

definition no_cluster_nodes :: "world \<Rightarrow> bool" where
  "no_cluster_nodes s =
     (\<not> compound (options s) \<and> clusters s = [] \<and>
      (\<forall>g. grapherInstance s = Some g \<longrightarrow> (\<forall>(k, n) \<in> set (gg_nodes g). \<not> gn_isCluster n)))"

text \<open>An outcome of steps 1 to 5 that the environment accounts for: a throw comes from a set-up call.\<close>

definition accounted :: "env \<Rightarrow> outcome \<Rightarrow> bool" where
  "accounted e out = (\<forall>x. out = Threw x \<longrightarrow> (\<exists>c. is_setup c \<and> raises e c = Some x))"

section \<open>Rank assignment\<close>

text \<open>
  Modelled from the spec: the rank assignment of the layout engine. The layout code
  that grapher.js calls (dagre.js) is not among the sources, and graph.js never sees a
  rank: it takes every resolution of \<^verbatim>\<open>layout()\<close> other than the cancelled one as success.
  Section 4.2 of the specification describes stage 1 as a longest-path ranking: each
  node gets an integer rank, and an edge spans at least its \<^verbatim>\<open>minlen\<close>. Here a node without
  incoming edges has rank 0 and any other node the largest \<open>rank(source) + minlen\<close> over
  its incoming edges; the ranks are computed along a topological order of the nodes,
  so the ranking exists exactly when the edges have such an order. The constraints that
  cluster containment adds in section 4.2 are left out.
\<close>

definition incoming :: "gedge list \<Rightarrow> string \<Rightarrow> gedge list" where
  "incoming es v = filter (\<lambda>e. ge_w e = v) es"

text \<open>A node can be ranked when none of its incoming edges starts at an unranked node.\<close>

definition rankable :: "gedge list \<Rightarrow> string list \<Rightarrow> string \<Rightarrow> bool" where
  "rankable es unranked v = list_all (\<lambda>e. ge_v e \<notin> set unranked) (incoming es v)"

fun topo_order :: "nat \<Rightarrow> gedge list \<Rightarrow> string list \<Rightarrow> string list option" where
  "topo_order 0 es unranked = (if unranked = [] then Some [] else None)"
| "topo_order (Suc fuel) es unranked =
     (case find (rankable es unranked) unranked of
        None \<Rightarrow> (if unranked = [] then Some [] else None)
      | Some v \<Rightarrow> map_option ((#) v) (topo_order fuel es (removeAll v unranked)))"

definition longest_path_rank :: "gedge list \<Rightarrow> (string \<Rightarrow> int) \<Rightarrow> string \<Rightarrow> int" where
  "longest_path_rank es r v = fold max (map (\<lambda>e. r (ge_v e) + ge_minlen e) (incoming es v)) 0"

fun assign_ranks :: "gedge list \<Rightarrow> string list \<Rightarrow> (string \<Rightarrow> int) \<Rightarrow> (string \<Rightarrow> int)" where
  "assign_ranks es [] r = r"
| "assign_ranks es (v # vs) r = assign_ranks es vs (r(v := longest_path_rank es r v))"

text \<open>The ranks of a successful layout of the grapher instance, or \<open>None\<close>.\<close>

definition rank_assignment :: "ggraph \<Rightarrow> (string \<Rightarrow> int) option" where
  "rank_assignment g =
     map_option (\<lambda>order. assign_ranks (gg_edges g) order (\<lambda>v. 0))
       (topo_order (length (gg_nodes g)) (gg_edges g) (map fst (gg_nodes g)))"

text \<open>A topological order: no edge into a node starts at that node or at a later one.\<close>

fun topological :: "gedge list \<Rightarrow> string list \<Rightarrow> bool" where
  "topological es [] = True"
| "topological es (v # vs) =
     ((\<forall>e \<in> set es. ge_w e = v \<longrightarrow> ge_v e \<notin> set (v # vs)) \<and> topological es vs)"

text \<open>A walk: consecutive edges from \<open>u\<close> to \<open>w\<close>.\<close>

fun walk :: "string \<Rightarrow> gedge list \<Rightarrow> string \<Rightarrow> bool" where
  "walk u [] w = (u = w)"
| "walk u (e # es) w = (ge_v e = u \<and> walk (ge_w e) es w)"

section \<open>Example states\<close>

definition no_options :: partial_options where
  "no_options = \<lparr>po_direction = None, po_nodeSep = None, po_rankSep = None, po_compound = None\<rparr>"

text \<open>The environment before the instance is created; the container has one child.\<close>

definition blank :: world where
  "blank =
     \<lparr>container = [], options = default_options no_options, nodes = [], edges = [],
      clusters = [], eventListeners = [], grapherInstance = None, console = [],
      document_next = 1, calls = [], invoked = []\<rparr>"

definition fresh :: world where
  "fresh = (case constructor (Some [0]) no_options blank of Inr s \<Rightarrow> s | Inl x \<Rightarrow> blank)"

definition flat :: world where
  "flat = (case constructor (Some [0]) (no_options\<lparr>po_compound := Some False\<rparr>) blank of
             Inr s \<Rightarrow> s | Inl x \<Rightarrow> blank)"

definition node_a :: node_opts where
  "node_a = \<lparr>no_id = Some ''a'', no_label = None, no_parent = None, no_styleClass = None\<rparr>"

definition node_b :: node_opts where
  "node_b = \<lparr>no_id = Some ''b'', no_label = Some ''B'', no_parent = None, no_styleClass = None\<rparr>"

definition cluster_k :: node_opts where
  "cluster_k = \<lparr>no_id = Some ''k'', no_label = None, no_parent = None, no_styleClass = None\<rparr>"

definition edge_ab :: edge_opts where
  "edge_ab = \<lparr>eo_from = Some ''a'', eo_to = Some ''b'', eo_id = None, eo_label = None,
              eo_styleClass = None, eo_minlen = None, eo_weight = None\<rparr>"

definition edge_ax :: edge_opts where
  "edge_ax = \<lparr>eo_from = Some ''a'', eo_to = Some ''x'', eo_id = None, eo_label = None,
              eo_styleClass = None, eo_minlen = None, eo_weight = None\<rparr>"

text \<open>A graph with the nodes a and b and the edge from a to b.\<close>

definition two_nodes :: world where
  "two_nodes = run [AddNode (Some node_a), AddNode (Some node_b), AddEdge (Some edge_ab)] fresh"

text \<open>Environments: nothing throws, and the layout succeeds or is cancelled.\<close>

definition quiet :: env where
  "quiet = \<lparr>raises = (\<lambda>c. None), layout_result = Resolves []\<rparr>"

definition cancelling :: env where
  "cancelling = \<lparr>raises = (\<lambda>c. None), layout_result = Resolves ''graph-layout-cancelled''\<rparr>"

text \<open>The state after one run of \<^verbatim>\<open>render\<close> on that graph.\<close>

definition rendered_once :: world where
  "rendered_once = snd (render quiet two_nodes)"








text \<open>Two listeners; the first throws on every payload.\<close>

definition throwing_listener :: listener where
  "throwing_listener = Function 1 (\<lambda>d. Some (Error ''listener failed''))"

definition plain_listener :: listener where
  "plain_listener = Function 2 (\<lambda>d. None)"

section \<open>Evaluation of the example states\<close>

lemmas build_defs = step_def addNode_def addEdge_def addCluster_def truthy_def or_else_def
  or_num_def spread_entry_def spread_edge_def map_has_def map_get_def map_set_def Let_def

lemma fresh_eval:
  "fresh =
     \<lparr>container = [0],
      options = \<lparr>direction = ''TB'', nodeSep = 50, rankSep = 50, compound = True\<rparr>,
      nodes = [], edges = [], clusters = [], eventListeners = [], grapherInstance = None,
      console = [], document_next = 1, calls = [], invoked = []\<rparr>"
  by (simp add: fresh_def blank_def no_options_def constructor_def default_options_def)

lemma flat_eval:
  "flat = fresh\<lparr>options := \<lparr>direction = ''TB'', nodeSep = 50, rankSep = 50, compound = False\<rparr>\<rparr>"
  by (simp add: fresh_def flat_def blank_def no_options_def constructor_def default_options_def)

lemma two_nodes_eval:
  "two_nodes =
     fresh\<lparr>nodes := [(''a'', \<lparr>en_id = ''a'', en_label = ''a'', en_parent = None, en_styleClass = None\<rparr>),
                      (''b'', \<lparr>en_id = ''b'', en_label = ''B'', en_parent = None, en_styleClass = None\<rparr>)],
            edges := [\<lparr>ee_from = ''a'', ee_to = ''b'', ee_id = None, ee_label = None,
                       ee_styleClass = None, ee_minlen = None, ee_weight = None\<rparr>]\<rparr>"
  by (simp add: two_nodes_def fresh_eval node_a_def node_b_def edge_ab_def build_defs)

lemma and_then_Returned: "and_then (Returned, s) f = f s"
  by (simp add: and_then_def)

lemma and_then_Threw: "and_then (Threw x, s) f = (Threw x, s)"
  by (simp add: and_then_def)

lemmas render_defs = render_def and_then_Returned and_then_Threw invoke_def apply_call_def
  gClusterNode_def gNode_def set_parent_of_def node_lookup_def gEdge_def edge_step_def
  grapherLayoutDirection_def grapher_options_def configure_def after_layout_def
  layout_step_def build_step_def new_Graph_def trim_def is_space_def

lemma render_quiet_two_nodes:
  "render quiet two_nodes =
     (Returned,
      two_nodes\<lparr>container := [1], document_next := 2,
        grapherInstance := Some
          \<lparr>gg_compound = True,
           gg_nodes = [(''a'', \<lparr>gn_name = ''a'', gn_id = ''a'', gn_class = [], gn_isCluster = False, gn_labelText = ''a''\<rparr>),
                       (''b'', \<lparr>gn_name = ''b'', gn_id = ''b'', gn_class = [], gn_isCluster = False, gn_labelText = ''B''\<rparr>)],
           gg_parent = [],
           gg_edges = [\<lparr>ge_v = ''a'', ge_w = ''b'', ge_id = None, ge_class = [], ge_label = [], ge_minlen = 1, ge_weight = 1\<rparr>],
           gg_options = Some \<lparr>go_direction = ''vertical'', go_nodesep = 50, go_ranksep = 50\<rparr>,
           gg_identifier = Some ''graphjs-render''\<rparr>,
        calls := [SetNode \<lparr>gn_name = ''a'', gn_id = ''a'', gn_class = [], gn_isCluster = False, gn_labelText = ''a''\<rparr>,
                  SetNode \<lparr>gn_name = ''b'', gn_id = ''b'', gn_class = [], gn_isCluster = False, gn_labelText = ''B''\<rparr>,
                  SetEdge \<lparr>ge_v = ''a'', ge_w = ''b'', ge_id = None, ge_class = [], ge_label = [], ge_minlen = 1, ge_weight = 1\<rparr>,
                  Build 1, Measure, Layout, ApplyCustomStyles, Update, FitSvgToContent 1,
                  AttachEventListeners]\<rparr>)"
  by (simp add: two_nodes_eval fresh_eval quiet_def render_defs build_defs)

section \<open>Identifiers and structural errors\<close>

text \<open>
  C1. Node and cluster identifiers share one namespace. When the id of the options
  passed to \<^verbatim>\<open>addNode\<close> or \<^verbatim>\<open>addCluster\<close> is already a key of the node map or of the
  cluster map, the call leaves the node map, the cluster map and the edge list as they
  were, so the entry stored under that id is not overwritten; \<^verbatim>\<open>addNode\<close> returns after a
  warning on the console.
\<close>

theorem duplicate_id_rejected:
  assumes "no_id opts = Some i" and "map_has i (nodes s) \<or> map_has i (clusters s)"
  shows "nodes (snd (addNode (Some opts) s)) = nodes s \<and>
         clusters (snd (addNode (Some opts) s)) = clusters s \<and>
         edges (snd (addNode (Some opts) s)) = edges s \<and>
         nodes (snd (addCluster (Some opts) s)) = nodes s \<and>
         clusters (snd (addCluster (Some opts) s)) = clusters s \<and>
         edges (snd (addCluster (Some opts) s)) = edges s \<and>
         (i \<noteq> [] \<longrightarrow> fst (addNode (Some opts) s) = Returned \<and>
            console (snd (addNode (Some opts) s)) \<noteq> console s)"
  using assms by (simp add: addNode_def addCluster_def truthy_def or_else_def Let_def)

theorem duplicate_id_rejected_witness:
  "no_id node_a = Some ''a'' \<and> map_has ''a'' (nodes two_nodes) \<and>
   nodes (snd (addNode (Some node_a) two_nodes)) = nodes two_nodes \<and>
   clusters (snd (addCluster (Some node_a) two_nodes)) = clusters two_nodes \<and>
   map_get ''a'' (nodes (snd (addCluster (Some node_a) two_nodes))) =
     Some \<lparr>en_id = ''a'', en_label = ''a'', en_parent = None, en_styleClass = None\<rparr> \<and>
   fst (addNode (Some node_a) two_nodes) = Returned"
  using duplicate_id_rejected [of node_a "''a''" two_nodes]
  by (simp add: two_nodes_eval fresh_eval node_a_def build_defs)

text \<open>
  C8. \<^verbatim>\<open>addNode\<close> without options or without a truthy id, and \<^verbatim>\<open>addEdge\<close> without options
  or without a truthy \<^verbatim>\<open>from\<close> or \<^verbatim>\<open>to\<close>, throw in the call itself and leave the whole
  state, so the node map and the edge list, as it was.
\<close>

theorem structural_errors_synchronous:
  "(\<exists>x. addNode None s = (Threw x, s)) \<and>
   (\<not> truthy (no_id opts) \<longrightarrow> (\<exists>x. addNode (Some opts) s = (Threw x, s))) \<and>
   (\<exists>x. addEdge None s = (Threw x, s)) \<and>
   (\<not> truthy (eo_from eopts) \<or> \<not> truthy (eo_to eopts) \<longrightarrow>
      (\<exists>x. addEdge (Some eopts) s = (Threw x, s)))"
  by (simp add: addNode_def addEdge_def)

theorem structural_errors_synchronous_witness:
  "\<not> truthy (no_id (node_a\<lparr>no_id := None\<rparr>)) \<and>
   \<not> truthy (eo_to (edge_ab\<lparr>eo_to := Some []\<rparr>)) \<and>
   (\<exists>x. addNode (Some (node_a\<lparr>no_id := None\<rparr>)) two_nodes = (Threw x, two_nodes)) \<and>
   (\<exists>x. addEdge (Some (edge_ab\<lparr>eo_to := Some []\<rparr>)) two_nodes = (Threw x, two_nodes))"
  using structural_errors_synchronous
          [of two_nodes "node_a\<lparr>no_id := None\<rparr>" "edge_ab\<lparr>eo_to := Some []\<rparr>"]
  by (simp add: truthy_def)

section \<open>Rendering: what steps 1 to 5 maintain\<close>

lemma and_thenE:
  assumes "and_then r f = (out, s')"
  obtains (threw) x where "r = (Threw x, s')" "out = Threw x"
        | (cont) s1 where "r = (Returned, s1)" "f s1 = (out, s')"
  using assms by (cases r; cases "fst r") (auto simp: and_then_def)

lemma forEach_preserves:
  assumes "\<And>x s out s'. x \<in> set xs \<Longrightarrow> P s \<Longrightarrow> f x s = (out, s') \<Longrightarrow> P s' \<and> Q out"
    and "Q Returned" and "P s" and "forEach f xs s = (out, s')"
  shows "P s' \<and> Q out"
  using assms
proof (induction xs arbitrary: s)
  case Nil
  then show ?case by simp
next
  case (Cons x xs)
  from Cons.prems(4) have "and_then (f x s) (forEach f xs) = (out, s')" by simp
  then show ?case
  proof (cases rule: and_thenE)
    case (threw e)
    with Cons.prems(1)[of x s "Threw e" s'] Cons.prems(3) show ?thesis by simp
  next
    case (cont s1)
    have "P s1" using Cons.prems(1)[of x s Returned s1] Cons.prems(3) cont(1) by simp
    with Cons.IH[of s1] Cons.prems(1,2) cont(2) show ?thesis by auto
  qed
qed

lemma accounted_Returned [simp]: "accounted e Returned"
  by (simp add: accounted_def)

lemma invoke_cases:
  assumes "invoke e c s = (out, s')"
  obtains (null) "grapherInstance s = None" "s' = s" "\<exists>x. out = Threw x"
        | (threw) g x where "grapherInstance s = Some g" "raises e c = Some x" "out = Threw x"
                            "s' = s\<lparr>calls := calls s @ [c]\<rparr>"
        | (returned) g where "grapherInstance s = Some g" "raises e c = None" "out = Returned"
                            "s' = s\<lparr>calls := calls s @ [c], grapherInstance := Some (apply_call c g)\<rparr>"
  using assms by (auto simp: invoke_def Let_def split: option.splits)

lemma set_update_subset: "set (AList.update k v al) \<subseteq> insert (k, v) (set al)"
  by (induction al) auto

lemma map_has_update: "map_has k al \<Longrightarrow> map_has k (map_set k' v al)"
  by (simp add: map_has_def map_set_def update_conv')

lemma populated_apply_call:
  assumes "populated s0 g"
    and "\<And>n. c = SetNode n \<Longrightarrow>
           n \<in> gClusterNode ` snd ` set (clusters s0) \<or> n \<in> gNode ` snd ` set (nodes s0)"
    and "\<And>ge. c = SetEdge ge \<Longrightarrow> ge \<in> gEdge ` set (edges s0) \<and>
           map_has (ge_v ge) (gg_nodes g) \<and> map_has (ge_w ge) (gg_nodes g)"
  shows "populated s0 (apply_call c g)"
proof (cases c)
  case (SetNode n)
  let ?ok = "\<lambda>n. n \<in> gClusterNode ` snd ` set (clusters s0) \<or> n \<in> gNode ` snd ` set (nodes s0)"
  have sub: "set (map_set (gn_name n) n (gg_nodes g)) \<subseteq> insert (gn_name n, n) (set (gg_nodes g))"
    by (simp add: map_set_def set_update_subset)
  have "k = gn_name m \<and> ?ok m" if "(k, m) \<in> set (map_set (gn_name n) n (gg_nodes g))" for k m
  proof -
    from that sub have "(k, m) = (gn_name n, n) \<or> (k, m) \<in> set (gg_nodes g)" by blast
    then show ?thesis
    proof
      assume "(k, m) = (gn_name n, n)"
      with assms(2)[OF SetNode] show ?thesis by simp
    next
      assume "(k, m) \<in> set (gg_nodes g)"
      with assms(1) show ?thesis unfolding populated_def by blast
    qed
  qed
  moreover have "\<forall>ge \<in> set (gg_edges g). ge \<in> gEdge ` set (edges s0) \<and>
      map_has (ge_v ge) (map_set (gn_name n) n (gg_nodes g)) \<and>
      map_has (ge_w ge) (map_set (gn_name n) n (gg_nodes g))"
    using assms(1) by (simp add: populated_def map_has_update)
  moreover have "\<forall>go. gg_options g = Some go \<longrightarrow> go = grapher_options (options s0)"
    using assms(1) by (simp add: populated_def)
  ultimately show ?thesis
    using SetNode by (auto simp: populated_def apply_call_def)
next
  case (SetEdge ge)
  with assms(1) assms(3)[OF SetEdge] show ?thesis
    by (auto simp: populated_def apply_call_def)
qed (use assms(1) in \<open>auto simp: populated_def apply_call_def\<close>)

lemma setting_up_invoke:
  assumes "setting_up s0 s" and "invoke e c s = (out, s')" and "is_setup c"
    and "\<And>n. c = SetNode n \<Longrightarrow>
           n \<in> gClusterNode ` snd ` set (clusters s0) \<or> n \<in> gNode ` snd ` set (nodes s0)"
    and "\<And>ge g. c = SetEdge ge \<Longrightarrow> grapherInstance s = Some g \<Longrightarrow> ge \<in> gEdge ` set (edges s0) \<and>
           map_has (ge_v ge) (gg_nodes g) \<and> map_has (ge_w ge) (gg_nodes g)"
  shows "setting_up s0 s' \<and> accounted e out"
  using assms(2)
proof (cases rule: invoke_cases)
  case null
  with assms(1) show ?thesis by (simp add: setting_up_def)
next
  case (threw g x)
  with assms(1,3) show ?thesis by (auto simp: setting_up_def accounted_def)
next
  case (returned g)
  from assms(1) returned(1) have "populated s0 g" by (auto simp: setting_up_def)
  then have "populated s0 (apply_call c g)"
    using assms(4) assms(5)[OF _ returned(1)] by (rule populated_apply_call)
  with assms(1,3) returned show ?thesis by (auto simp: setting_up_def)
qed

lemma setting_up_set_parent_of:
  assumes "setting_up s0 s" and "set_parent_of e x s = (out, s')"
  shows "setting_up s0 s' \<and> accounted e out"
proof (cases "truthy (en_parent x)")
  case True
  with assms(2) have "invoke e (SetParent (en_id x) (or_else (en_parent x) [])) s = (out, s')"
    by (simp add: set_parent_of_def)
  with assms(1) show ?thesis by (rule setting_up_invoke) (simp_all add: is_setup_def)
next
  case False
  with assms show ?thesis by (simp add: set_parent_of_def)
qed

lemma setting_up_edge_step:
  assumes "setting_up s0 s" and "edge_step e x s = (out, s')" and "x \<in> set (edges s0)"
  shows "setting_up s0 s' \<and> accounted e out"
proof (cases "node_lookup (ee_from x) s = None \<or> node_lookup (ee_to x) s = None")
  case True
  with assms(1,2) show ?thesis by (auto simp: edge_step_def setting_up_def)
next
  case False
  with assms(2) have inv: "invoke e (SetEdge (gEdge x)) s = (out, s')"
    by (simp add: edge_step_def)
  from assms(1) inv show ?thesis
  proof (rule setting_up_invoke)
    fix ge g assume "SetEdge (gEdge x) = SetEdge ge" "grapherInstance s = Some g"
    with False assms(3) show "ge \<in> gEdge ` set (edges s0) \<and>
           map_has (ge_v ge) (gg_nodes g) \<and> map_has (ge_w ge) (gg_nodes g)"
      by (auto simp: node_lookup_def map_has_def map_get_def gEdge_def)
  qed (simp_all add: is_setup_def)
qed

lemma setting_up_configure:
  assumes "setting_up s0 s" and "configure s = (out, s')"
  shows "out = Returned \<and> setting_up s0 s' \<and>
         (\<exists>g. grapherInstance s' = Some g \<and> gg_options g = Some (grapher_options (options s0)))"
  using assms by (auto simp: configure_def setting_up_def populated_def split: option.splits)

lemma clusters_loop:
  assumes "setting_up s0 s"
    and "forEach (\<lambda>c. invoke e (SetNode (gClusterNode c))) (map snd (clusters s)) s = (out, s')"
  shows "setting_up s0 s' \<and> accounted e out"
proof (rule forEach_preserves[where P = "setting_up s0" and Q = "accounted e", OF _ _ assms])
  fix x t o' t'
  assume "x \<in> set (map snd (clusters s))" "setting_up s0 t"
    "invoke e (SetNode (gClusterNode x)) t = (o', t')"
  moreover have "clusters s = clusters s0" using assms(1) by (simp add: setting_up_def)
  ultimately show "setting_up s0 t' \<and> accounted e o'"
    by (elim setting_up_invoke) (auto simp: is_setup_def)
qed simp

lemma nodes_loop:
  assumes "setting_up s0 s"
    and "forEach (\<lambda>n. invoke e (SetNode (gNode n))) (map snd (nodes s)) s = (out, s')"
  shows "setting_up s0 s' \<and> accounted e out"
proof (rule forEach_preserves[where P = "setting_up s0" and Q = "accounted e", OF _ _ assms])
  fix x t o' t'
  assume "x \<in> set (map snd (nodes s))" "setting_up s0 t"
    "invoke e (SetNode (gNode x)) t = (o', t')"
  moreover have "nodes s = nodes s0" using assms(1) by (simp add: setting_up_def)
  ultimately show "setting_up s0 t' \<and> accounted e o'"
    by (elim setting_up_invoke) (auto simp: is_setup_def)
qed simp

lemma parents_loop:
  assumes "setting_up s0 s" and "forEach (set_parent_of e) xs s = (out, s')"
  shows "setting_up s0 s' \<and> accounted e out"
  by (rule forEach_preserves[where P = "setting_up s0" and Q = "accounted e", OF _ _ assms])
     (simp_all add: setting_up_set_parent_of)

lemma edges_loop:
  assumes "setting_up s0 s" and "forEach (edge_step e) (edges s) s = (out, s')"
  shows "setting_up s0 s' \<and> accounted e out"
proof (rule forEach_preserves[where P = "setting_up s0" and Q = "accounted e", OF _ _ assms])
  fix x t o' t'
  assume "x \<in> set (edges s)" "setting_up s0 t" "edge_step e x t = (o', t')"
  moreover have "edges s = edges s0" using assms(1) by (simp add: setting_up_def)
  ultimately show "setting_up s0 t' \<and> accounted e o'"
    using setting_up_edge_step[of s0 t e x o' t'] by simp
qed simp

lemma parents_step:
  assumes "setting_up s0 s"
    and "(if compound (options s)
          then and_then (forEach (set_parent_of e) (map snd (clusters s)) s)
                 (\<lambda>s. forEach (set_parent_of e) (map snd (nodes s)) s)
          else (Returned, s)) = (out, s')"
  shows "setting_up s0 s' \<and> accounted e out"
proof (cases "compound (options s)")
  case False
  with assms show ?thesis by auto
next
  case True
  with assms(2) have "and_then (forEach (set_parent_of e) (map snd (clusters s)) s)
                 (\<lambda>s. forEach (set_parent_of e) (map snd (nodes s)) s) = (out, s')" by simp
  then show ?thesis
  proof (cases rule: and_thenE)
    case (threw x)
    with assms(1) show ?thesis by (auto dest: parents_loop)
  next
    case (cont s1)
    from assms(1) cont(1) have "setting_up s0 s1" by (auto dest: parents_loop)
    then show ?thesis using cont(2) by (rule parents_loop)
  qed
qed

lemma render_reaches:
  assumes "render e s = (out, s')"
  shows "(setting_up s s' \<and> (\<exists>x. out = Threw x) \<and> accounted e out) \<or>
         (\<exists>s5 g. setting_up s s5 \<and> build_step e s5 = (out, s') \<and>
            grapherInstance s5 = Some g \<and> gg_options g = Some (grapher_options (options s)))"
proof -
  define s1 where "s1 = s\<lparr>container := [], grapherInstance := Some (new_Graph (compound (options s)))\<rparr>"
  have i1: "setting_up s s1"
    by (simp add: s1_def setting_up_def populated_def new_Graph_def)
  from assms have
    "and_then (forEach (\<lambda>c. invoke e (SetNode (gClusterNode c))) (map snd (clusters s1)) s1) (\<lambda>s.
      and_then (forEach (\<lambda>n. invoke e (SetNode (gNode n))) (map snd (nodes s)) s) (\<lambda>s.
      and_then (if compound (options s)
                then and_then (forEach (set_parent_of e) (map snd (clusters s)) s)
                       (\<lambda>s. forEach (set_parent_of e) (map snd (nodes s)) s)
                else (Returned, s)) (\<lambda>s.
      and_then (forEach (edge_step e) (edges s) s) (\<lambda>s.
      and_then (configure s) (build_step e))))) = (out, s')"
    by (simp add: render_def s1_def Let_def)
  then show ?thesis
  proof (cases rule: and_thenE)
    case (threw x)
    from i1 threw(1) have "setting_up s s' \<and> accounted e (Threw x)" by (rule clusters_loop)
    with threw show ?thesis by simp
  next
    case c2: (cont s2)
    from i1 c2(1) have i2: "setting_up s s2" by (auto dest: clusters_loop)
    from c2(2) show ?thesis
    proof (cases rule: and_thenE)
      case (threw x)
      from i2 threw(1) have "setting_up s s' \<and> accounted e (Threw x)" by (rule nodes_loop)
      with threw show ?thesis by simp
    next
      case c3: (cont s3)
      from i2 c3(1) have i3: "setting_up s s3" by (auto dest: nodes_loop)
      from c3(2) show ?thesis
      proof (cases rule: and_thenE)
        case (threw x)
        from i3 threw(1) have "setting_up s s' \<and> accounted e (Threw x)" by (rule parents_step)
        with threw show ?thesis by simp
      next
        case c4: (cont s4)
        from i3 c4(1) have i4: "setting_up s s4" by (auto dest: parents_step)
        from c4(2) show ?thesis
        proof (cases rule: and_thenE)
          case (threw x)
          from i4 threw(1) have "setting_up s s' \<and> accounted e (Threw x)" by (rule edges_loop)
          with threw show ?thesis by simp
        next
          case c5: (cont s5)
          from i4 c5(1) have i5: "setting_up s s5" by (auto dest: edges_loop)
          from c5(2) show ?thesis
          proof (cases rule: and_thenE)
            case (threw x)
            with setting_up_configure[OF i5] show ?thesis by simp
          next
            case c6: (cont s6)
            with setting_up_configure[OF i5] show ?thesis by auto
          qed
        qed
      qed
    qed
  qed
qed

lemma after_layout_calls:
  assumes "grapherInstance s = Some g" and "after_layout e d s = (out, s')"
  shows "calls s' = calls s @ made e [ApplyCustomStyles, Update, FitSvgToContent d, AttachEventListeners] \<and>
         out = made_outcome e [ApplyCustomStyles, Update, FitSvgToContent d, AttachEventListeners] \<and>
         grapherInstance s' = Some g \<and> container s' = container s \<and>
         document_next s' = document_next s \<and> nodes s' = nodes s \<and> edges s' = edges s \<and>
         clusters s' = clusters s \<and> options s' = options s \<and>
         eventListeners s' = eventListeners s \<and> invoked s' = invoked s \<and> console s' = console s"
  using assms
  by (auto simp: after_layout_def and_then_def invoke_def apply_call_def Let_def
           split: option.splits outcome.splits)

lemma layout_step_effect:
  assumes "grapherInstance s = Some g" and "layout_step e d s = (out, s')"
  shows "calls s' = calls s @ made e (drop 2 (pipeline e d)) \<and>
         out = made_outcome e (drop 2 (pipeline e d)) \<and>
         grapherInstance s' = Some g \<and> container s' = container s \<and>
         document_next s' = document_next s \<and> nodes s' = nodes s \<and> edges s' = edges s \<and>
         clusters s' = clusters s \<and> options s' = options s \<and>
         eventListeners s' = eventListeners s \<and> invoked s' = invoked s \<and>
         (layout_result e = Resolves ''graph-layout-cancelled'' \<longrightarrow>
            console s' = console s @ [Warn ''Graph layout was cancelled.''])"
proof (cases "layout_result e")
  case (Rejects x)
  with assms show ?thesis by (auto simp: layout_step_def pipeline_def Let_def)
next
  case (Resolves r)
  show ?thesis
  proof (cases "r = ''graph-layout-cancelled''")
    case True
    with Resolves assms show ?thesis by (auto simp: layout_step_def pipeline_def Let_def)
  next
    case False
    with Resolves assms(2)
    have al: "after_layout e d (s\<lparr>calls := calls s @ [Layout]\<rparr>) = (out, s')"
      by (simp add: layout_step_def Let_def)
    have "grapherInstance (s\<lparr>calls := calls s @ [Layout]\<rparr>) = Some g" using assms(1) by simp
    from after_layout_calls[OF this al] Resolves False show ?thesis
      by (simp add: pipeline_def)
  qed
qed

lemma build_step_effect:
  assumes "grapherInstance s = Some g" and "build_step e s = (out, s')"
  shows "calls s' = calls s @ made e (pipeline e (document_next s)) \<and>
         out = made_outcome e (pipeline e (document_next s)) \<and>
         grapherInstance s' = Some g \<and> container s' = container s @ [document_next s] \<and>
         document_next s' = Suc (document_next s) \<and> nodes s' = nodes s \<and> edges s' = edges s \<and>
         clusters s' = clusters s \<and> options s' = options s \<and>
         eventListeners s' = eventListeners s \<and> invoked s' = invoked s \<and>
         (layout_result e = Resolves ''graph-layout-cancelled'' \<longrightarrow>
            Layout \<in> set (made e (pipeline e (document_next s))) \<longrightarrow>
            console s' = console s @ [Warn ''Graph layout was cancelled.''])"
proof -
  define d where "d = document_next s"
  define s1 where "s1 = s\<lparr>document_next := Suc d, container := container s @ [d]\<rparr>"
  have p: "pipeline e d = Build d # Measure # drop 2 (pipeline e d)"
    by (simp add: pipeline_def)
  from assms(2) have
    r: "and_then (invoke e (Build d) s1) (\<lambda>s. and_then (invoke e Measure s) (layout_step e d)) = (out, s')"
    by (simp add: build_step_def Let_def d_def s1_def)
  have g1: "grapherInstance s1 = Some g" using assms(1) by (simp add: s1_def)
  from r show ?thesis
  proof (cases rule: and_thenE)
    case (threw x)
    from threw(1) g1 show ?thesis unfolding d_def[symmetric]
      by (subst (1 2 3) p) (auto simp: s1_def threw(2) apply_call_def elim!: invoke_cases)
  next
    case b: (cont s2)
    from b(1) g1 have s2: "s2 = s1\<lparr>calls := calls s1 @ [Build d]\<rparr>" "raises e (Build d) = None"
      by (auto simp: apply_call_def elim!: invoke_cases)
    from b(2) show ?thesis
    proof (cases rule: and_thenE)
      case (threw x)
      from threw(1) g1 s2 show ?thesis unfolding d_def[symmetric]
        by (subst (1 2 3) p) (auto simp: s1_def threw(2) apply_call_def elim!: invoke_cases)
    next
      case m: (cont s3)
      from m(1) g1 s2 have s3: "s3 = s2\<lparr>calls := calls s2 @ [Measure]\<rparr>" "raises e Measure = None"
        by (auto simp: apply_call_def elim!: invoke_cases)
      have g3: "grapherInstance s3 = Some g" using g1 s2 s3 by simp
      from layout_step_effect[OF g3 m(2)] s2 s3 show ?thesis unfolding d_def[symmetric]
        by (subst (1 2 3) p) (simp add: s1_def)
    qed
  qed
qed

text \<open>
  The effect of a run of \<^verbatim>\<open>render\<close>: it either throws during steps 1 to 5 and leaves
  the container empty, or creates one SVG element and goes through the pipeline.
\<close>

lemma render_effect:
  assumes "render e s = (out, s')"
  shows "nodes s' = nodes s \<and> edges s' = edges s \<and> clusters s' = clusters s \<and>
         options s' = options s \<and> eventListeners s' = eventListeners s \<and>
         invoked s' = invoked s \<and>
         (\<exists>g. grapherInstance s' = Some g \<and> populated s g \<and>
              (out = Returned \<longrightarrow> gg_options g = Some (grapher_options (options s)))) \<and>
         (\<exists>pre. list_all is_setup pre \<and>
            ((calls s' = calls s @ pre \<and> container s' = [] \<and>
              document_next s' = document_next s \<and> (\<exists>x. out = Threw x) \<and> accounted e out) \<or>
             (calls s' = calls s @ pre @ made e (pipeline e (document_next s)) \<and>
              container s' = [document_next s] \<and> document_next s' = Suc (document_next s) \<and>
              out = made_outcome e (pipeline e (document_next s)) \<and>
              (layout_result e = Resolves ''graph-layout-cancelled'' \<longrightarrow>
                 Layout \<in> set (made e (pipeline e (document_next s))) \<longrightarrow>
                 last (console s') = Warn ''Graph layout was cancelled.''))))"
  using render_reaches[OF assms]
proof
  assume "setting_up s s' \<and> (\<exists>x. out = Threw x) \<and> accounted e out"
  then show ?thesis by (auto simp: setting_up_def)
next
  assume "\<exists>s5 g. setting_up s s5 \<and> build_step e s5 = (out, s') \<and>
            grapherInstance s5 = Some g \<and> gg_options g = Some (grapher_options (options s))"
  then obtain s5 g where su: "setting_up s s5" and bs: "build_step e s5 = (out, s')"
    and g: "grapherInstance s5 = Some g" "gg_options g = Some (grapher_options (options s))"
    by blast
  from su g(1) have pop: "populated s g" by (auto simp: setting_up_def)
  from su obtain pre where pre: "calls s5 = calls s @ pre" "list_all is_setup pre"
    by (auto simp: setting_up_def)
  from su have fr: "container s5 = []" "document_next s5 = document_next s" "nodes s5 = nodes s"
    "edges s5 = edges s" "clusters s5 = clusters s" "options s5 = options s"
    "eventListeners s5 = eventListeners s" "invoked s5 = invoked s"
    by (simp_all add: setting_up_def)
  note eff = build_step_effect[OF g(1) bs, unfolded fr pre(1)]
  have "calls s' = calls s @ pre @ made e (pipeline e (document_next s)) \<and>
        container s' = [document_next s] \<and> document_next s' = Suc (document_next s) \<and>
        out = made_outcome e (pipeline e (document_next s)) \<and>
        (layout_result e = Resolves ''graph-layout-cancelled'' \<longrightarrow>
           Layout \<in> set (made e (pipeline e (document_next s))) \<longrightarrow>
           last (console s') = Warn ''Graph layout was cancelled.'')"
    using eff by simp
  with pre(2) have "\<exists>pre. list_all is_setup pre \<and>
            ((calls s' = calls s @ pre \<and> container s' = [] \<and>
              document_next s' = document_next s \<and> (\<exists>x. out = Threw x) \<and> accounted e out) \<or>
             (calls s' = calls s @ pre @ made e (pipeline e (document_next s)) \<and>
              container s' = [document_next s] \<and> document_next s' = Suc (document_next s) \<and>
              out = made_outcome e (pipeline e (document_next s)) \<and>
              (layout_result e = Resolves ''graph-layout-cancelled'' \<longrightarrow>
                 Layout \<in> set (made e (pipeline e (document_next s))) \<longrightarrow>
                 last (console s') = Warn ''Graph layout was cancelled.'')))"
    by blast
  moreover have "nodes s' = nodes s \<and> edges s' = edges s \<and> clusters s' = clusters s \<and>
         options s' = options s \<and> eventListeners s' = eventListeners s \<and>
         invoked s' = invoked s"
    using eff by simp
  moreover have "\<exists>g. grapherInstance s' = Some g \<and> populated s g \<and>
              (out = Returned \<longrightarrow> gg_options g = Some (grapher_options (options s)))"
    using eff pop g(2) by simp
  ultimately show ?thesis by blast
qed

lemma set_made_subset: "set (made e cs) \<subseteq> set cs"
  by (induction cs) auto

lemma setup_prefix_mem:
  "list_all is_setup pre \<Longrightarrow> \<not> is_setup c \<Longrightarrow> c \<in> set (pre @ cs) \<longleftrightarrow> c \<in> set cs"
  by (auto simp: list_all_iff)

lemma setup_prefix_precedes:
  "list_all is_setup pre \<Longrightarrow> \<not> is_setup a \<Longrightarrow> precedes a b (pre @ cs) = precedes a b cs"
  by (induction pre) auto

lemma new_calls_append [simp]: "calls s' = calls s @ cs \<Longrightarrow> new_calls s s' = cs"
  by (simp add: new_calls_def)

lemma render_new_calls:
  obtains pre where "list_all is_setup pre"
    and "(new_calls s (snd (render e s)) = pre \<and> container (snd (render e s)) = [] \<and>
          document_next (snd (render e s)) = document_next s \<and> (\<exists>x. fst (render e s) = Threw x) \<and> accounted e (fst (render e s))) \<or>
         (new_calls s (snd (render e s)) = pre @ made e (pipeline e (document_next s)) \<and>
          container (snd (render e s)) = [document_next s] \<and>
          document_next (snd (render e s)) = Suc (document_next s) \<and>
          fst (render e s) = made_outcome e (pipeline e (document_next s)) \<and>
          (layout_result e = Resolves ''graph-layout-cancelled'' \<longrightarrow>
             Layout \<in> set (made e (pipeline e (document_next s))) \<longrightarrow>
             last (console (snd (render e s))) = Warn ''Graph layout was cancelled.''))"
proof -
  have "render e s = (fst (render e s), snd (render e s))" by simp
  from render_effect[OF this] obtain pre where "list_all is_setup pre"
    "(calls (snd (render e s)) = calls s @ pre \<and> container (snd (render e s)) = [] \<and>
          document_next (snd (render e s)) = document_next s \<and> (\<exists>x. fst (render e s) = Threw x) \<and> accounted e (fst (render e s))) \<or>
         (calls (snd (render e s)) = calls s @ pre @ made e (pipeline e (document_next s)) \<and>
          container (snd (render e s)) = [document_next s] \<and>
          document_next (snd (render e s)) = Suc (document_next s) \<and>
          fst (render e s) = made_outcome e (pipeline e (document_next s)) \<and>
          (layout_result e = Resolves ''graph-layout-cancelled'' \<longrightarrow>
             Layout \<in> set (made e (pipeline e (document_next s))) \<longrightarrow>
             last (console (snd (render e s))) = Warn ''Graph layout was cancelled.''))"
    by blast
  then show ?thesis using that[of pre] by (auto simp del: new_calls_append simp: new_calls_def)
qed

lemma not_setup [simp]:
  "\<not> is_setup (Build d)" "\<not> is_setup Measure" "\<not> is_setup Layout" "\<not> is_setup ApplyCustomStyles"
  "\<not> is_setup Update" "\<not> is_setup (FitSvgToContent d)" "\<not> is_setup AttachEventListeners"
  by (simp_all add: is_setup_def)

section \<open>The render pipeline\<close>

text \<open>
  C3. When the promise of \<^verbatim>\<open>layout()\<close> resolves with \<^verbatim>\<open>'graph-layout-cancelled'\<close>, the run
  makes none of the calls that follow the layout (style application, update, SVG
  fitting, listener attachment), and a run that reached the layout returns normally,
  its last console entry being the warning that the layout was cancelled.
\<close>

theorem cancelled_layout_stops_render:
  assumes "layout_result e = Resolves ''graph-layout-cancelled''"
  shows "ApplyCustomStyles \<notin> set (new_calls s (snd (render e s))) \<and>
         Update \<notin> set (new_calls s (snd (render e s))) \<and>
         FitSvgToContent h \<notin> set (new_calls s (snd (render e s))) \<and>
         AttachEventListeners \<notin> set (new_calls s (snd (render e s))) \<and>
         (Layout \<in> set (new_calls s (snd (render e s))) \<longrightarrow>
            fst (render e s) = Returned \<and>
            last (console (snd (render e s))) = Warn ''Graph layout was cancelled.'')"
proof -
  obtain pre where pre: "list_all is_setup pre"
    and eff: "(new_calls s (snd (render e s)) = pre \<and> container (snd (render e s)) = [] \<and>
          document_next (snd (render e s)) = document_next s \<and> (\<exists>x. fst (render e s) = Threw x) \<and> accounted e (fst (render e s))) \<or>
         (new_calls s (snd (render e s)) = pre @ made e (pipeline e (document_next s)) \<and>
          container (snd (render e s)) = [document_next s] \<and>
          document_next (snd (render e s)) = Suc (document_next s) \<and>
          fst (render e s) = made_outcome e (pipeline e (document_next s)) \<and>
          (layout_result e = Resolves ''graph-layout-cancelled'' \<longrightarrow>
             Layout \<in> set (made e (pipeline e (document_next s))) \<longrightarrow>
             last (console (snd (render e s))) = Warn ''Graph layout was cancelled.''))"
    by (rule render_new_calls)
  have p: "pipeline e (document_next s) = [Build (document_next s), Measure, Layout]"
    using assms by (simp add: pipeline_def)
  have "c \<notin> set pre" if "\<not> is_setup c" for c using pre that by (auto simp: list_all_iff)
  then have np: "ApplyCustomStyles \<notin> set pre" "Update \<notin> set pre" "FitSvgToContent h \<notin> set pre"
    "AttachEventListeners \<notin> set pre" "Layout \<notin> set pre" by simp_all
  from eff show ?thesis
  proof
    assume a: "new_calls s (snd (render e s)) = pre \<and> container (snd (render e s)) = [] \<and>
          document_next (snd (render e s)) = document_next s \<and> (\<exists>x. fst (render e s) = Threw x) \<and> accounted e (fst (render e s))"
    with np show ?thesis by simp
  next
    assume b: "new_calls s (snd (render e s)) = pre @ made e (pipeline e (document_next s)) \<and>
          container (snd (render e s)) = [document_next s] \<and>
          document_next (snd (render e s)) = Suc (document_next s) \<and>
          fst (render e s) = made_outcome e (pipeline e (document_next s)) \<and>
          (layout_result e = Resolves ''graph-layout-cancelled'' \<longrightarrow>
             Layout \<in> set (made e (pipeline e (document_next s))) \<longrightarrow>
             last (console (snd (render e s))) = Warn ''Graph layout was cancelled.'')"
    then show ?thesis using assms np
      by (auto simp: p split: if_splits option.splits)
  qed
qed

lemma render_cancelling_two_nodes:
  "fst (render cancelling two_nodes) = Returned \<and>
   new_calls two_nodes (snd (render cancelling two_nodes)) =
     [SetNode \<lparr>gn_name = ''a'', gn_id = ''a'', gn_class = [], gn_isCluster = False, gn_labelText = ''a''\<rparr>,
      SetNode \<lparr>gn_name = ''b'', gn_id = ''b'', gn_class = [], gn_isCluster = False, gn_labelText = ''B''\<rparr>,
      SetEdge \<lparr>ge_v = ''a'', ge_w = ''b'', ge_id = None, ge_class = [], ge_label = [], ge_minlen = 1, ge_weight = 1\<rparr>,
      Build 1, Measure, Layout] \<and>
   console (snd (render cancelling two_nodes)) = [Warn ''Graph layout was cancelled.'']"
  by (simp add: two_nodes_eval fresh_eval cancelling_def render_defs build_defs new_calls_def)

theorem cancelled_layout_stops_render_witness:
  "layout_result cancelling = Resolves ''graph-layout-cancelled'' \<and>
   Layout \<in> set (new_calls two_nodes (snd (render cancelling two_nodes))) \<and>
   Update \<notin> set (new_calls two_nodes (snd (render cancelling two_nodes))) \<and>
   fst (render cancelling two_nodes) = Returned \<and>
   last (console (snd (render cancelling two_nodes))) = Warn ''Graph layout was cancelled.''"
  using cancelled_layout_stops_render [of cancelling two_nodes 1]
  by (simp add: render_cancelling_two_nodes) (simp add: cancelling_def)

text \<open>
  C6. In every run of \<^verbatim>\<open>render\<close> the phases come in sequence: \<^verbatim>\<open>measure\<close> is called
  after \<^verbatim>\<open>build\<close> on the new SVG element, \<^verbatim>\<open>layout\<close> after \<^verbatim>\<open>measure\<close>, and \<^verbatim>\<open>update\<close> only
  after a \<^verbatim>\<open>layout\<close> that resolved with something other than the cancelled outcome. When
  no call throws and the layout succeeds, the run returns after the whole pipeline,
  in the order of the source.
\<close>

theorem pipeline_order:
  "(Measure \<in> set (new_calls s (snd (render e s))) \<longrightarrow>
      precedes (Build (document_next s)) Measure (new_calls s (snd (render e s)))) \<and>
   (Layout \<in> set (new_calls s (snd (render e s))) \<longrightarrow>
      precedes Measure Layout (new_calls s (snd (render e s)))) \<and>
   (Update \<in> set (new_calls s (snd (render e s))) \<longrightarrow>
      precedes Layout Update (new_calls s (snd (render e s))) \<and>
      (\<exists>r. layout_result e = Resolves r \<and> r \<noteq> ''graph-layout-cancelled'')) \<and>
   ((\<forall>c. raises e c = None) \<and> (\<exists>r. layout_result e = Resolves r \<and> r \<noteq> ''graph-layout-cancelled'') \<longrightarrow>
      fst (render e s) = Returned \<and>
      (\<exists>pre. list_all is_setup pre \<and>
         new_calls s (snd (render e s)) =
           pre @ [Build (document_next s), Measure, Layout, ApplyCustomStyles, Update,
                  FitSvgToContent (document_next s), AttachEventListeners]))"
proof -
  obtain pre where pre: "list_all is_setup pre"
    and eff: "(new_calls s (snd (render e s)) = pre \<and> container (snd (render e s)) = [] \<and>
          document_next (snd (render e s)) = document_next s \<and>
          (\<exists>x. fst (render e s) = Threw x) \<and> accounted e (fst (render e s))) \<or>
         (new_calls s (snd (render e s)) = pre @ made e (pipeline e (document_next s)) \<and>
          container (snd (render e s)) = [document_next s] \<and>
          document_next (snd (render e s)) = Suc (document_next s) \<and>
          fst (render e s) = made_outcome e (pipeline e (document_next s)) \<and>
          (layout_result e = Resolves ''graph-layout-cancelled'' \<longrightarrow>
             Layout \<in> set (made e (pipeline e (document_next s))) \<longrightarrow>
             last (console (snd (render e s))) = Warn ''Graph layout was cancelled.''))"
    by (rule render_new_calls)
  have "c \<notin> set pre" if "\<not> is_setup c" for c using pre that by (auto simp: list_all_iff)
  then have np: "Measure \<notin> set pre" "Update \<notin> set pre" "Layout \<notin> set pre" by simp_all
  from eff show ?thesis
  proof
    assume a: "new_calls s (snd (render e s)) = pre \<and> container (snd (render e s)) = [] \<and>
          document_next (snd (render e s)) = document_next s \<and>
          (\<exists>x. fst (render e s) = Threw x) \<and> accounted e (fst (render e s))"
    then obtain x c where "raises e c = Some x" unfolding accounted_def by blast
    with a np show ?thesis by auto
  next
    assume b: "new_calls s (snd (render e s)) = pre @ made e (pipeline e (document_next s)) \<and>
          container (snd (render e s)) = [document_next s] \<and>
          document_next (snd (render e s)) = Suc (document_next s) \<and>
          fst (render e s) = made_outcome e (pipeline e (document_next s)) \<and>
          (layout_result e = Resolves ''graph-layout-cancelled'' \<longrightarrow>
             Layout \<in> set (made e (pipeline e (document_next s))) \<longrightarrow>
             last (console (snd (render e s))) = Warn ''Graph layout was cancelled.'')"
    have 1: "Measure \<in> set (made e (pipeline e d)) \<longrightarrow> precedes (Build d) Measure (made e (pipeline e d))" for d
      by (simp add: pipeline_def)
    have 2: "Layout \<in> set (made e (pipeline e d)) \<longrightarrow> precedes Measure Layout (made e (pipeline e d))" for d
      by (simp add: pipeline_def)
    have 3: "Update \<in> set (made e (pipeline e d)) \<longrightarrow> precedes Layout Update (made e (pipeline e d)) \<and>
             (\<exists>r. layout_result e = Resolves r \<and> r \<noteq> ''graph-layout-cancelled'')" for d
      by (cases "layout_result e") (auto simp: pipeline_def)
    have 4: "(\<forall>c. raises e c = None) \<and> (\<exists>r. layout_result e = Resolves r \<and> r \<noteq> ''graph-layout-cancelled'') \<longrightarrow>
             made_outcome e (pipeline e d) = Returned \<and>
             made e (pipeline e d) = [Build d, Measure, Layout, ApplyCustomStyles, Update,
                  FitSvgToContent d, AttachEventListeners]" for d
      by (auto simp: pipeline_def)
    from b pre np 1[of "document_next s"] 2[of "document_next s"] 3[of "document_next s"]
      4[of "document_next s"]
    show ?thesis
      by (simp add: setup_prefix_precedes)
  qed
qed

theorem pipeline_order_witness:
  "Measure \<in> set (new_calls two_nodes (snd (render quiet two_nodes))) \<and>
   Layout \<in> set (new_calls two_nodes (snd (render quiet two_nodes))) \<and>
   Update \<in> set (new_calls two_nodes (snd (render quiet two_nodes))) \<and>
   (\<forall>c. raises quiet c = None) \<and> layout_result quiet = Resolves [] \<and>
   precedes (Build 1) Measure (new_calls two_nodes (snd (render quiet two_nodes))) \<and>
   precedes Measure Layout (new_calls two_nodes (snd (render quiet two_nodes))) \<and>
   precedes Layout Update (new_calls two_nodes (snd (render quiet two_nodes))) \<and>
   fst (render quiet two_nodes) = Returned"
  using pipeline_order [of two_nodes quiet]
  by (simp add: render_quiet_two_nodes new_calls_def) (simp add: two_nodes_eval fresh_eval quiet_def)

text \<open>
  C4. The direction handed to grapher.js: \<^verbatim>\<open>'TB'\<close> and \<^verbatim>\<open>'BT'\<close> both become
  \<^verbatim>\<open>'vertical'\<close>, \<^verbatim>\<open>'LR'\<close> and \<^verbatim>\<open>'RL'\<close> are passed on unchanged, and the options of the
  grapher instance, which every run that returns has set, carry that value.
\<close>

theorem direction_normalization:
  "grapherLayoutDirection ''TB'' = ''vertical'' \<and>
   grapherLayoutDirection ''BT'' = ''vertical'' \<and>
   grapherLayoutDirection ''LR'' = ''LR'' \<and>
   grapherLayoutDirection ''RL'' = ''RL'' \<and>
   (\<forall>g go. grapherInstance (snd (render e s)) = Some g \<and> gg_options g = Some go \<longrightarrow>
      go_direction go = grapherLayoutDirection (direction (options s))) \<and>
   (fst (render e s) = Returned \<longrightarrow>
      (\<exists>g go. grapherInstance (snd (render e s)) = Some g \<and> gg_options g = Some go))"
proof -
  have "render e s = (fst (render e s), snd (render e s))" by simp
  from render_effect[OF this] obtain g where g: "grapherInstance (snd (render e s)) = Some g"
    "populated s g"
    "fst (render e s) = Returned \<longrightarrow> gg_options g = Some (grapher_options (options s))"
    by blast
  from g(2) have "\<forall>go. gg_options g = Some go \<longrightarrow> go = grapher_options (options s)"
    by (simp add: populated_def)
  with g(1) have 1: "\<forall>g go. grapherInstance (snd (render e s)) = Some g \<and> gg_options g = Some go \<longrightarrow>
      go_direction go = grapherLayoutDirection (direction (options s))"
    by (auto simp: grapher_options_def)
  from g(1,3) have 2: "fst (render e s) = Returned \<longrightarrow>
      (\<exists>g go. grapherInstance (snd (render e s)) = Some g \<and> gg_options g = Some go)"
    by simp
  have 3: "grapherLayoutDirection ''TB'' = ''vertical''" "grapherLayoutDirection ''BT'' = ''vertical''"
    "grapherLayoutDirection ''LR'' = ''LR''" "grapherLayoutDirection ''RL'' = ''RL''"
    by (simp_all add: grapherLayoutDirection_def)
  from 1 2 3 show ?thesis by blast
qed


theorem direction_normalization_witness:
  "direction (options two_nodes) = ''TB'' \<and> fst (render quiet two_nodes) = Returned \<and>
   (\<exists>g go. grapherInstance (snd (render quiet two_nodes)) = Some g \<and> gg_options g = Some go \<and>
      go_direction go = ''vertical'')"
  using direction_normalization [of quiet two_nodes]
  by (simp add: render_quiet_two_nodes) (simp add: two_nodes_eval fresh_eval)

section \<open>Edges whose ends are not registered\<close>

text \<open>
  C2, as stated, does not hold: \<^verbatim>\<open>addEdge\<close> never looks at the node map. On the new
  graph, where no node x exists, an edge from a to x is stored and the call returns.
\<close>

theorem addEdge_dangling_counterexample:
  "''x'' \<notin> registered fresh \<and>
   addEdge (Some edge_ax) fresh =
     (Returned, fresh\<lparr>edges := [\<lparr>ee_from = ''a'', ee_to = ''x'', ee_id = None, ee_label = None,
                                   ee_styleClass = None, ee_minlen = None, ee_weight = None\<rparr>]\<rparr>)"
  by (simp add: fresh_eval edge_ax_def registered_def build_defs)

text \<open>
  C2, amended. \<^verbatim>\<open>addEdge\<close> stores every edge whose \<^verbatim>\<open>from\<close> and \<^verbatim>\<open>to\<close> are truthy, whether
  or not they are registered, and returns. The ends are looked up by \<^verbatim>\<open>render\<close>: the
  grapher instance only gets edges whose two ends are ids of stored nodes or clusters
  (the others are skipped with a warning).
\<close>

theorem addEdge_stores_unchecked:
  "(truthy (eo_from opts) \<and> truthy (eo_to opts) \<longrightarrow>
      fst (addEdge (Some opts) s) = Returned \<and>
      edges (snd (addEdge (Some opts) s)) =
        edges s @ [spread_edge (or_else (eo_from opts) []) (or_else (eo_to opts) []) opts]) \<and>
   (\<forall>g. grapherInstance (snd (render e s)) = Some g \<longrightarrow>
      (\<forall>ge \<in> set (gg_edges g). ge_v ge \<in> registered s \<and> ge_w ge \<in> registered s))"
proof -
  have "render e s = (fst (render e s), snd (render e s))" by simp
  from render_effect[OF this] obtain g where g: "grapherInstance (snd (render e s)) = Some g"
    "populated s g" by blast
  have keys: "k \<in> registered s" if "map_has k (gg_nodes g)" for k
  proof -
    from that obtain n where "(k, n) \<in> set (gg_nodes g)"
      by (auto simp: map_has_def dest: map_of_SomeD)
    with g(2) have "k = gn_name n" "n \<in> gClusterNode ` snd ` set (clusters s) \<or> n \<in> gNode ` snd ` set (nodes s)"
      unfolding populated_def by blast+
    then show ?thesis
      by (force simp: registered_def gClusterNode_def gNode_def)
  qed
  from g(2) have "\<forall>ge \<in> set (gg_edges g). map_has (ge_v ge) (gg_nodes g) \<and> map_has (ge_w ge) (gg_nodes g)"
    by (simp add: populated_def)
  with keys g(1) have "\<forall>g. grapherInstance (snd (render e s)) = Some g \<longrightarrow>
      (\<forall>ge \<in> set (gg_edges g). ge_v ge \<in> registered s \<and> ge_w ge \<in> registered s)"
    by simp
  moreover have "truthy (eo_from opts) \<and> truthy (eo_to opts) \<longrightarrow>
      fst (addEdge (Some opts) s) = Returned \<and>
      edges (snd (addEdge (Some opts) s)) =
        edges s @ [spread_edge (or_else (eo_from opts) []) (or_else (eo_to opts) []) opts]"
    by (simp add: addEdge_def)
  ultimately show ?thesis by blast
qed

theorem addEdge_stores_unchecked_witness:
  "truthy (eo_from edge_ax) \<and> truthy (eo_to edge_ax) \<and> ''x'' \<notin> registered two_nodes \<and>
   fst (addEdge (Some edge_ax) two_nodes) = Returned \<and>
   (\<exists>g. grapherInstance (snd (render quiet two_nodes)) = Some g \<and>
      (\<exists>ge \<in> set (gg_edges g). ge_v ge \<in> registered two_nodes \<and> ge_w ge \<in> registered two_nodes))"
  using addEdge_stores_unchecked [of edge_ax two_nodes quiet]
  by (simp add: render_quiet_two_nodes) (simp add: two_nodes_eval fresh_eval edge_ax_def truthy_def registered_def)

section \<open>The container\<close>

lemma run_append: "run (xs @ ys) s = run ys (run xs s)"
  by (induction xs arbitrary: s) simp_all

lemma render_handles:
  assumes "\<forall>h \<in> set (container s). h < document_next s"
  shows "(\<forall>h \<in> set (container (snd (render e s))). h < document_next (snd (render e s))) \<and>
         document_next s \<le> document_next (snd (render e s))"
proof -
  obtain pre where
    "(new_calls s (snd (render e s)) = pre \<and> container (snd (render e s)) = [] \<and>
          document_next (snd (render e s)) = document_next s \<and>
          (\<exists>x. fst (render e s) = Threw x) \<and> accounted e (fst (render e s))) \<or>
         (new_calls s (snd (render e s)) = pre @ made e (pipeline e (document_next s)) \<and>
          container (snd (render e s)) = [document_next s] \<and>
          document_next (snd (render e s)) = Suc (document_next s) \<and>
          fst (render e s) = made_outcome e (pipeline e (document_next s)) \<and>
          (layout_result e = Resolves ''graph-layout-cancelled'' \<longrightarrow>
             Layout \<in> set (made e (pipeline e (document_next s))) \<longrightarrow>
             last (console (snd (render e s))) = Warn ''Graph layout was cancelled.''))"
    by (rule render_new_calls)
  then show ?thesis by auto
qed

lemma renders_handles:
  assumes "\<forall>h \<in> set (container s). h < document_next s"
  shows "(\<forall>h \<in> set (container (run (map Render es) s)). h < document_next (run (map Render es) s)) \<and>
         document_next s \<le> document_next (run (map Render es) s)"
  using assms
proof (induction es arbitrary: s)
  case Nil
  then show ?case by simp
next
  case (Cons e es)
  from render_handles[OF Cons.prems, of e]
  have 1: "\<forall>h \<in> set (container (snd (render e s))). h < document_next (snd (render e s))"
    and 2: "document_next s \<le> document_next (snd (render e s))" by simp_all
  from Cons.IH[OF 1] 2 show ?case by (simp add: step_def)
qed

text \<open>
  C10. Handles of elements are given out in increasing order, so a container whose
  children have handles below the next one holds no element created later. After any
  sequence of runs of \<^verbatim>\<open>render\<close> followed by one more, the container holds the one SVG
  element that the last run created, which is new: it was not a child of the container
  before that run, nor at the start. This is so for every run that returns and for
  every run in which no set-up call throws; a run that a throwing set-up call ends
  before the element is created leaves the container empty.
\<close>

theorem render_replaces_container_content:
  assumes "\<forall>h \<in> set (container s). h < document_next s"
  shows "run (map Render (es @ [e])) s = snd (render e (run (map Render es) s)) \<and>
         (container (snd (render e (run (map Render es) s))) = [document_next (run (map Render es) s)] \<or>
          container (snd (render e (run (map Render es) s))) = [] \<and>
          (\<exists>x. fst (render e (run (map Render es) s)) = Threw x)) \<and>
         ((\<forall>c. is_setup c \<longrightarrow> raises e c = None) \<longrightarrow>
          container (snd (render e (run (map Render es) s))) = [document_next (run (map Render es) s)]) \<and>
         (fst (render e (run (map Render es) s)) = Returned \<longrightarrow>
          container (snd (render e (run (map Render es) s))) = [document_next (run (map Render es) s)]) \<and>
         document_next (run (map Render es) s) \<notin> set (container (run (map Render es) s)) \<and>
         document_next (run (map Render es) s) \<notin> set (container s)"
proof -
  define s1 where "s1 = run (map Render es) s"
  obtain pre where eff:
    "(new_calls s1 (snd (render e s1)) = pre \<and> container (snd (render e s1)) = [] \<and>
          document_next (snd (render e s1)) = document_next s1 \<and>
          (\<exists>x. fst (render e s1) = Threw x) \<and> accounted e (fst (render e s1))) \<or>
         (new_calls s1 (snd (render e s1)) = pre @ made e (pipeline e (document_next s1)) \<and>
          container (snd (render e s1)) = [document_next s1] \<and>
          document_next (snd (render e s1)) = Suc (document_next s1) \<and>
          fst (render e s1) = made_outcome e (pipeline e (document_next s1)) \<and>
          (layout_result e = Resolves ''graph-layout-cancelled'' \<longrightarrow>
             Layout \<in> set (made e (pipeline e (document_next s1))) \<longrightarrow>
             last (console (snd (render e s1))) = Warn ''Graph layout was cancelled.''))"
    by (rule render_new_calls)
  have a: "run (map Render (es @ [e])) s = snd (render e s1)"
    by (simp add: run_append step_def s1_def)
  from eff have b: "container (snd (render e s1)) = [document_next s1] \<or>
          container (snd (render e s1)) = [] \<and> (\<exists>x. fst (render e s1) = Threw x)"
    by blast
  from eff have c: "(\<forall>c. is_setup c \<longrightarrow> raises e c = None) \<longrightarrow>
          container (snd (render e s1)) = [document_next s1]"
    by (auto simp: accounted_def)
  from eff have d: "fst (render e s1) = Returned \<longrightarrow> container (snd (render e s1)) = [document_next s1]"
    by auto
  from renders_handles[OF assms, of es] assms
  have f: "document_next s1 \<notin> set (container s1)" "document_next s1 \<notin> set (container s)"
    unfolding s1_def by fastforce+
  from a b c d f show ?thesis unfolding s1_def by blast
qed

lemma render_rendered_once:
  "container (snd (render quiet rendered_once)) = [2] \<and>
   fst (render quiet rendered_once) = Returned"
  unfolding rendered_once_def render_quiet_two_nodes snd_conv
  by (simp add: two_nodes_eval fresh_eval quiet_def render_defs)

theorem render_replaces_container_content_witness:
  "container two_nodes = [0] \<and> document_next two_nodes = 1 \<and>
   container (run (map Render [quiet]) two_nodes) = [1] \<and>
   container (run (map Render ([quiet] @ [quiet])) two_nodes) = [2]"
proof -
  have h: "\<forall>h \<in> set (container two_nodes). h < document_next two_nodes"
    by (simp add: two_nodes_eval fresh_eval)
  have r1: "run (map Render [quiet]) two_nodes = rendered_once"
    by (simp add: step_def rendered_once_def)
  have c1: "container rendered_once = [1]"
    by (simp add: rendered_once_def render_quiet_two_nodes)
  from render_replaces_container_content [OF h, of "[quiet]" quiet] h r1 c1 render_rendered_once
  show ?thesis by (simp add: two_nodes_eval fresh_eval)
qed

section \<open>Graphs that are not compound\<close>

lemma call_listener_frame:
  "options (snd (call_listener t d cb s)) = options s \<and>
   clusters (snd (call_listener t d cb s)) = clusters s \<and>
   grapherInstance (snd (call_listener t d cb s)) = grapherInstance s"
  by (simp add: call_listener_def Let_def split: listener.splits option.splits)

lemma emit_frame:
  "options (snd (emit t d s)) = options s \<and> clusters (snd (emit t d s)) = clusters s \<and>
   grapherInstance (snd (emit t d s)) = grapherInstance s"
proof (cases "map_get t (eventListeners s)")
  case None
  then show ?thesis by (simp add: emit_def)
next
  case (Some cbs)
  have "forEach (call_listener t d) cbs s = (fst (forEach (call_listener t d) cbs s), snd (forEach (call_listener t d) cbs s))"
    by simp
  from forEach_preserves[where P = "\<lambda>u. options u = options s \<and> clusters u = clusters s \<and>
         grapherInstance u = grapherInstance s" and Q = "\<lambda>out. True", OF _ _ _ this]
  have "options (snd (forEach (call_listener t d) cbs s)) = options s \<and>
        clusters (snd (forEach (call_listener t d) cbs s)) = clusters s \<and>
        grapherInstance (snd (forEach (call_listener t d) cbs s)) = grapherInstance s"
    using call_listener_frame by (metis snd_conv)
  with Some show ?thesis by (simp add: emit_def)
qed

lemma on_frame:
  "options (snd (on t cb s)) = options s \<and> clusters (snd (on t cb s)) = clusters s \<and>
   grapherInstance (snd (on t cb s)) = grapherInstance s"
  by (simp add: on_def Let_def split: listener.splits)

lemma add_frame:
  "options (snd (addNode n s)) = options s \<and> clusters (snd (addNode n s)) = clusters s \<and>
   grapherInstance (snd (addNode n s)) = grapherInstance s \<and>
   options (snd (addEdge ed s)) = options s \<and> clusters (snd (addEdge ed s)) = clusters s \<and>
   grapherInstance (snd (addEdge ed s)) = grapherInstance s"
  by (simp add: addNode_def addEdge_def Let_def split: option.splits)

lemma addCluster_not_compound:
  assumes "\<not> compound (options s)"
  shows "fst (addCluster c s) = Returned \<and> clusters (snd (addCluster c s)) = clusters s \<and>
         nodes (snd (addCluster c s)) = nodes s \<and> edges (snd (addCluster c s)) = edges s \<and>
         options (snd (addCluster c s)) = options s \<and>
         grapherInstance (snd (addCluster c s)) = grapherInstance s"
  using assms by (simp add: addCluster_def)

lemma render_no_cluster_nodes:
  assumes "no_cluster_nodes s"
  shows "no_cluster_nodes (snd (render e s))"
proof -
  have "render e s = (fst (render e s), snd (render e s))" by simp
  from render_effect[OF this] obtain g where g: "grapherInstance (snd (render e s)) = Some g"
    "populated s g" and fr: "clusters (snd (render e s)) = clusters s"
    "options (snd (render e s)) = options s"
    by blast
  have "\<not> gn_isCluster n" if "(k, n) \<in> set (gg_nodes g)" for k n
  proof -
    from that g(2) have "n \<in> gClusterNode ` snd ` set (clusters s) \<or> n \<in> gNode ` snd ` set (nodes s)"
      unfolding populated_def by blast
    with assms show ?thesis by (auto simp: no_cluster_nodes_def gNode_def)
  qed
  with g(1) fr assms show ?thesis by (auto simp: no_cluster_nodes_def)
qed

lemma step_no_cluster_nodes:
  assumes "no_cluster_nodes s"
  shows "no_cluster_nodes (snd (step c s))"
proof (cases c)
  case (AddNode n)
  with assms add_frame[of n s] show ?thesis by (simp add: step_def no_cluster_nodes_def)
next
  case (AddEdge ed)
  with assms add_frame[of _ s ed] show ?thesis by (simp add: step_def no_cluster_nodes_def)
next
  case (AddCluster cl)
  with assms addCluster_not_compound[of s cl] show ?thesis by (simp add: step_def no_cluster_nodes_def)
next
  case (On t cb)
  with assms on_frame[of t cb s] show ?thesis by (simp add: step_def no_cluster_nodes_def)
next
  case (Emit t d)
  with assms emit_frame[of t d s] show ?thesis by (simp add: step_def no_cluster_nodes_def)
next
  case (Render e)
  with assms render_no_cluster_nodes[of s e] show ?thesis by (simp add: step_def)
qed

lemma run_no_cluster_nodes: "no_cluster_nodes s \<Longrightarrow> no_cluster_nodes (run cs s)"
  by (induction cs arbitrary: s) (simp_all add: step_no_cluster_nodes)

text \<open>
  C9. In a graph whose \<^verbatim>\<open>compound\<close> option is off, \<^verbatim>\<open>addCluster\<close> returns without throwing,
  whatever its argument, and leaves the cluster map, the node map and the edge list as
  they were. So in a graph constructed with \<^verbatim>\<open>compound: false\<close> the cluster map stays
  empty through every sequence of calls, and no grapher node of a cluster is ever in
  the grapher instance that \<^verbatim>\<open>render\<close> builds.
\<close>

theorem addCluster_noop_when_not_compound:
  "(\<not> compound (options s) \<longrightarrow>
      fst (addCluster c s) = Returned \<and> clusters (snd (addCluster c s)) = clusters s \<and>
      nodes (snd (addCluster c s)) = nodes s \<and> edges (snd (addCluster c s)) = edges s) \<and>
   (po_compound po = Some False \<and> constructor (Some children) po w = Inr s0 \<longrightarrow>
      clusters (run cs s0) = [] \<and>
      (\<forall>g. grapherInstance (run cs s0) = Some g \<longrightarrow>
         (\<forall>(k, n) \<in> set (gg_nodes g). \<not> gn_isCluster n)))"
proof -
  have "no_cluster_nodes (run cs s0)"
    if "po_compound po = Some False" "constructor (Some children) po w = Inr s0"
  proof -
    from that have "no_cluster_nodes s0"
      by (auto simp: constructor_def default_options_def no_cluster_nodes_def)
    then show ?thesis by (rule run_no_cluster_nodes)
  qed
  then show ?thesis using addCluster_not_compound[of s c]
    by (auto simp: no_cluster_nodes_def)
qed

lemma flat_run_eval:
  "clusters (run [AddCluster (Some cluster_k), AddNode (Some node_a), Render quiet] flat) = [] \<and>
   grapherInstance (run [AddCluster (Some cluster_k), AddNode (Some node_a), Render quiet] flat) =
     Some \<lparr>gg_compound = False,
           gg_nodes = [(''a'', \<lparr>gn_name = ''a'', gn_id = ''a'', gn_class = [], gn_isCluster = False, gn_labelText = ''a''\<rparr>)],
           gg_parent = [], gg_edges = [],
           gg_options = Some \<lparr>go_direction = ''vertical'', go_nodesep = 50, go_ranksep = 50\<rparr>,
           gg_identifier = Some ''graphjs-render''\<rparr>"
  by (simp add: flat_eval fresh_eval cluster_k_def node_a_def quiet_def build_defs render_defs)

theorem addCluster_noop_when_not_compound_witness:
  "\<not> compound (options flat) \<and>
   po_compound (no_options\<lparr>po_compound := Some False\<rparr>) = Some False \<and>
   constructor (Some [0]) (no_options\<lparr>po_compound := Some False\<rparr>) blank = Inr flat \<and>
   fst (addCluster (Some cluster_k) flat) = Returned \<and>
   clusters (snd (addCluster (Some cluster_k) flat)) = [] \<and>
   clusters (run [AddCluster (Some cluster_k), AddNode (Some node_a), Render quiet] flat) = [] \<and>
   (\<exists>g. grapherInstance (run [AddCluster (Some cluster_k), AddNode (Some node_a), Render quiet] flat) = Some g \<and>
      gg_nodes g \<noteq> [] \<and> (\<forall>(k, n) \<in> set (gg_nodes g). \<not> gn_isCluster n))"
proof -
  have c: "constructor (Some [0]) (no_options\<lparr>po_compound := Some False\<rparr>) blank = Inr flat"
    by (simp add: flat_def constructor_def)
  have p: "po_compound (no_options\<lparr>po_compound := Some False\<rparr>) = Some False" by simp
  have nc: "\<not> compound (options flat)" "clusters flat = []" by (simp_all add: flat_eval fresh_eval)
  from addCluster_noop_when_not_compound
         [of flat "Some cluster_k" "no_options\<lparr>po_compound := Some False\<rparr>" "[0]" blank flat
             "[AddCluster (Some cluster_k), AddNode (Some node_a), Render quiet]"]
       c p nc flat_run_eval
  show ?thesis by simp
qed

section \<open>Event delivery\<close>

lemma listeners_of_on:
  "listeners_of t (snd (on t' cb s)) =
     (if t = t' \<and> is_function cb then listeners_of t s @ [cb] else listeners_of t s)"
  by (cases cb)
     (auto simp: on_def listeners_of_def map_get_def map_set_def map_has_def update_conv' Let_def
           split: option.splits)

lemma on_invoked: "invoked (snd (on t cb s)) = invoked s"
  by (simp add: on_def Let_def split: listener.splits)

lemma listeners_of_register:
  "listeners_of t (register regs s) =
     listeners_of t s @ filter is_function (map snd (filter (\<lambda>r. fst r = t) regs))"
proof (induction regs arbitrary: s)
  case Nil
  then show ?case by simp
next
  case (Cons r regs)
  obtain t' cb where r: "r = (t', cb)" by (cases r)
  show ?case unfolding r by (simp add: Cons.IH listeners_of_on)
qed

lemma register_invoked: "invoked (register regs s) = invoked s"
proof (induction regs arbitrary: s)
  case Nil
  then show ?case by simp
next
  case (Cons r regs)
  obtain t' cb where r: "r = (t', cb)" by (cases r)
  show ?case unfolding r by (simp add: Cons.IH on_invoked)
qed

lemma call_listener_effect:
  "call_listener t d cb s =
     (Returned, s\<lparr>invoked := invoked s @ map (\<lambda>i. (i, d)) (function_ids [cb]),
                   console := console s @ listener_errors t d [cb]\<rparr>)"
proof (cases cb)
  case NotFunction
  then show ?thesis by (simp add: call_listener_def)
next
  case (Function i f)
  then show ?thesis by (cases "f d") (simp_all add: call_listener_def Let_def)
qed

lemma function_ids_Cons: "function_ids (cb # cbs) = function_ids [cb] @ function_ids cbs"
  by (cases cb) simp_all

lemma listener_errors_Cons: "listener_errors t d (cb # cbs) = listener_errors t d [cb] @ listener_errors t d cbs"
proof (cases cb)
  case NotFunction
  then show ?thesis by simp
next
  case (Function i f)
  then show ?thesis by (cases "f d") simp_all
qed

lemma deliver:
  "fst (forEach (call_listener t d) cbs s) = Returned \<and>
   invoked (snd (forEach (call_listener t d) cbs s)) =
     invoked s @ map (\<lambda>i. (i, d)) (function_ids cbs) \<and>
   console (snd (forEach (call_listener t d) cbs s)) = console s @ listener_errors t d cbs"
proof (induction cbs arbitrary: s)
  case Nil
  then show ?case by simp
next
  case (Cons cb cbs)
  have "forEach (call_listener t d) (cb # cbs) s =
        forEach (call_listener t d) cbs
          (s\<lparr>invoked := invoked s @ map (\<lambda>i. (i, d)) (function_ids [cb]),
             console := console s @ listener_errors t d [cb]\<rparr>)"
    by (simp only: forEach.simps call_listener_effect and_then_Returned)
  then show ?case
    by (simp only: Cons.IH function_ids_Cons[of cb cbs] listener_errors_Cons[of t d cb cbs])
       simp
qed

text \<open>
  C7. After a sequence of registrations, \<^verbatim>\<open>_emit\<close> calls the listeners of the event type
  once each, in the order of their registration (those present before, then the
  functions registered for that type), with the payload; it logs what the throwing ones
  throw and goes on to the next; and it always returns to the emitter.
\<close>

theorem event_delivery:
  "fst (emit t d (register regs s)) = Returned \<and>
   invoked (snd (emit t d (register regs s))) =
     invoked s @ map (\<lambda>i. (i, d))
       (function_ids (listeners_of t s @ filter is_function (map snd (filter (\<lambda>r. fst r = t) regs)))) \<and>
   console (snd (emit t d (register regs s))) =
     console (register regs s) @
     listener_errors t d (listeners_of t s @ filter is_function (map snd (filter (\<lambda>r. fst r = t) regs)))"
proof -
  define s1 where "s1 = register regs s"
  have "fst (emit t d s1) = Returned \<and>
        invoked (snd (emit t d s1)) = invoked s1 @ map (\<lambda>i. (i, d)) (function_ids (listeners_of t s1)) \<and>
        console (snd (emit t d s1)) = console s1 @ listener_errors t d (listeners_of t s1)"
    by (cases "map_get t (eventListeners s1)") (simp_all add: emit_def listeners_of_def deliver)
  then show ?thesis
    unfolding s1_def by (simp add: listeners_of_register register_invoked)
qed

theorem event_delivery_witness:
  "fst (emit ''node:click'' (NodeClick ''a'')
          (register [(''node:click'', throwing_listener), (''edge:click'', plain_listener),
                     (''node:click'', NotFunction), (''node:click'', plain_listener)] fresh)) = Returned \<and>
   invoked (snd (emit ''node:click'' (NodeClick ''a'')
          (register [(''node:click'', throwing_listener), (''edge:click'', plain_listener),
                     (''node:click'', NotFunction), (''node:click'', plain_listener)] fresh))) =
     [(1, NodeClick ''a''), (2, NodeClick ''a'')]"
  using event_delivery [of "''node:click''" "NodeClick ''a''"
          "[(''node:click'', throwing_listener), (''edge:click'', plain_listener),
            (''node:click'', NotFunction), (''node:click'', plain_listener)]" fresh]
  by (simp add: throwing_listener_def plain_listener_def listeners_of_def map_get_def fresh_eval)

section \<open>Ranks\<close>

lemma find_SomeD: "find P xs = Some x \<Longrightarrow> P x \<and> x \<in> set xs"
  by (auto simp: find_Some_iff)

lemma topo_order_sound:
  "topo_order fuel es unranked = Some order \<Longrightarrow>
     topological es order \<and> set order = set unranked \<and> distinct order"
proof (induction fuel arbitrary: unranked order)
  case 0
  then show ?case by (simp split: if_splits)
next
  case (Suc fuel)
  show ?case
  proof (cases "find (rankable es unranked) unranked")
    case None
    with Suc.prems show ?thesis by (simp split: if_splits)
  next
    case (Some v)
    with Suc.prems obtain rest where rest: "topo_order fuel es (removeAll v unranked) = Some rest"
      and order: "order = v # rest" by auto
    from find_SomeD[OF Some] have v: "rankable es unranked v" "v \<in> set unranked" by simp_all
    from Suc.IH[OF rest] have ih: "topological es rest" "set rest = set unranked - {v}" "distinct rest"
      by simp_all
    from v(1) have "\<forall>e \<in> set es. ge_w e = v \<longrightarrow> ge_v e \<notin> set unranked"
      by (simp add: rankable_def incoming_def list_all_iff)
    with v(2) ih order show ?thesis by auto
  qed
qed

lemma fold_max_ge: "(x::int) \<in> set xs \<Longrightarrow> x \<le> fold max xs a"
proof -
  assume "x \<in> set xs"
  then have "x \<le> Max (set (a # xs))" by simp
  then show ?thesis by (simp only: Max.set_eq_fold)
qed

lemma longest_path_rank_ge:
  "e \<in> set es \<Longrightarrow> ge_w e = v \<Longrightarrow> r (ge_v e) + ge_minlen e \<le> longest_path_rank es r v"
  unfolding longest_path_rank_def incoming_def by (rule fold_max_ge) auto

lemma assign_ranks_constraint:
  assumes "topological es order" and "distinct order" and "ranked \<inter> set order = {}"
    and "\<forall>e \<in> set es. ge_w e \<in> ranked \<longrightarrow> ge_v e \<notin> set order"
    and "\<forall>e \<in> set es. ge_w e \<in> ranked \<longrightarrow> r (ge_v e) + ge_minlen e \<le> r (ge_w e)"
  shows "\<forall>e \<in> set es. ge_w e \<in> ranked \<union> set order \<longrightarrow>
           assign_ranks es order r (ge_v e) + ge_minlen e \<le> assign_ranks es order r (ge_w e)"
  using assms
proof (induction order arbitrary: r ranked)
  case Nil
  then show ?case by simp
next
  case (Cons v vs)
  let ?r = "r(v := longest_path_rank es r v)"
  have src: "\<forall>e \<in> set es. ge_w e = v \<longrightarrow> ge_v e \<notin> set (v # vs)"
    using Cons.prems(1) by simp
  have 1: "topological es vs" "distinct vs" using Cons.prems(1,2) by simp_all
  have 2: "(insert v ranked) \<inter> set vs = {}" using Cons.prems(2,3) by auto
  have 3: "\<forall>e \<in> set es. ge_w e \<in> insert v ranked \<longrightarrow> ge_v e \<notin> set vs"
    using Cons.prems(4) src by auto
  have 4: "\<forall>e \<in> set es. ge_w e \<in> insert v ranked \<longrightarrow> ?r (ge_v e) + ge_minlen e \<le> ?r (ge_w e)"
  proof (intro ballI impI)
    fix e assume e: "e \<in> set es" "ge_w e \<in> insert v ranked"
    show "?r (ge_v e) + ge_minlen e \<le> ?r (ge_w e)"
    proof (cases "ge_w e = v")
      case True
      with src e(1) have "ge_v e \<noteq> v" by auto
      with True longest_path_rank_ge[OF e(1) True, of r] show ?thesis by simp
    next
      case False
      with e have w: "ge_w e \<in> ranked" by simp
      with Cons.prems(4) e(1) have "ge_v e \<noteq> v" by auto
      with False w Cons.prems(5) e(1) show ?thesis by simp
    qed
  qed
  have eq: "assign_ranks es (v # vs) r = assign_ranks es vs ?r" by simp
  have un: "ranked \<union> set (v # vs) = insert v ranked \<union> set vs" by auto
  show ?case unfolding eq un
    by (rule Cons.IH[where r = "?r" and ranked = "insert v ranked", OF 1 2 3 4])
qed

lemma rank_assignment_sound:
  assumes "rank_assignment g = Some rank" and "e \<in> set (gg_edges g)"
    and "map_has (ge_w e) (gg_nodes g)"
  shows "ge_minlen e \<le> rank (ge_w e) - rank (ge_v e)"
proof -
  from assms(1) obtain order where
    order: "topo_order (length (gg_nodes g)) (gg_edges g) (map fst (gg_nodes g)) = Some order"
    and rank: "rank = assign_ranks (gg_edges g) order (\<lambda>v. 0)"
    by (auto simp: rank_assignment_def)
  from topo_order_sound[OF order] have t: "topological (gg_edges g) order"
    "set order = fst ` set (gg_nodes g)" "distinct order" by simp_all
  from assms(3) have "ge_w e \<in> set order"
    unfolding t(2) map_has_def by (auto dest: map_of_SomeD intro: rev_image_eqI)
  with assign_ranks_constraint[OF t(1) t(3), of "{}" "\<lambda>v. 0"] assms(2)
  have "assign_ranks (gg_edges g) order (\<lambda>v. 0) (ge_v e) + ge_minlen e
          \<le> assign_ranks (gg_edges g) order (\<lambda>v. 0) (ge_w e)"
    by simp
  then show ?thesis unfolding rank by linarith
qed

text \<open>
  Along a walk the ranks grow by at least the sum of the \<^verbatim>\<open>minlen\<close>s, so no ranking
  satisfies the constraint on every edge of a cycle of positive length, and the rank
  assignment of a grapher instance with such a cycle is \<open>None\<close>.
\<close>

lemma walk_rank:
  assumes "walk u p w" and "\<forall>e \<in> set p. r (ge_v e) + ge_minlen e \<le> r (ge_w e)"
  shows "r u + sum_list (map ge_minlen p) \<le> (r w :: int)"
  using assms
proof (induction p arbitrary: u)
  case Nil
  then show ?case by simp
next
  case (Cons e p)
  from Cons.prems have "walk (ge_w e) p w" "\<forall>e \<in> set p. r (ge_v e) + ge_minlen e \<le> r (ge_w e)"
    by simp_all
  from Cons.IH[OF this] Cons.prems show ?case by simp
qed

lemma cycle_has_no_ranking:
  assumes "walk u p u" and "0 < sum_list (map ge_minlen p)"
  shows "\<not> (\<forall>e \<in> set p. r (ge_v e) + ge_minlen e \<le> (r (ge_w e) :: int))"
proof
  assume "\<forall>e \<in> set p. r (ge_v e) + ge_minlen e \<le> r (ge_w e)"
  from walk_rank[OF assms(1) this] assms(2) show False by simp
qed

lemma cyclic_graph_has_no_layout:
  assumes "walk u p u" and "0 < sum_list (map ge_minlen p)"
    and "set p \<subseteq> set (gg_edges g)"
    and "\<forall>e \<in> set p. map_has (ge_w e) (gg_nodes g)"
  shows "rank_assignment g = None"
proof (rule ccontr)
  assume "rank_assignment g \<noteq> None"
  then obtain rank where "rank_assignment g = Some rank" by auto
  with assms(3,4) have "\<forall>e \<in> set p. rank (ge_v e) + ge_minlen e \<le> rank (ge_w e)"
    using rank_assignment_sound[of g rank] by fastforce
  with cycle_has_no_ranking[OF assms(1,2), of rank] show False by simp
qed




section \<open>What render hands to the layout\<close>




















end
